theory Spec2Isabelle
  imports Complex_Main "HOL-Library.Multiset"
begin

section \<open>Python values used by \<^verbatim>\<open>network_diag.py\<close>\<close>

text \<open>
  Strings are lists of 8-bit characters read as code points 0..255; Python's \<^verbatim>\<open>int\<close> is
  \<^typ>\<open>int\<close>; a \<^verbatim>\<open>float\<close> is a \<open>pyfloat\<close>: a finite value, an infinity or NaN (the
  command line accepts all of them for \<^verbatim>\<open>--timeout\<close>). Exceptions are values of
  \<open>exn\<close>; a call that may raise returns \<open>exn + 'a\<close> with \<open>Inl\<close> the raised exception.
\<close>

datatype pyfloat = Finite real | PosInf | NegInf | NaN

datatype exn =
    ValueError
  | OverflowError
  | Gaierror string
  | RequestException string
  | OSError string
  | OtherException string

text \<open>\<^verbatim>\<open>str.isspace\<close> on the code points below 256.\<close>

definition is_space :: "char \<Rightarrow> bool" where
  "is_space c = (let n = (of_char c :: nat)
                 in (9 \<le> n \<and> n \<le> 13) \<or> (28 \<le> n \<and> n \<le> 32) \<or> n = 133 \<or> n = 160)"

definition is_digit :: "char \<Rightarrow> bool" where
  "is_digit c = (let n = (of_char c :: nat) in 48 \<le> n \<and> n \<le> 57)"

definition digit_val :: "char \<Rightarrow> int" where
  "digit_val c = int (of_char c) - 48"

text \<open>\<^verbatim>\<open>s.strip()\<close>\<close>

definition strip :: "string \<Rightarrow> string" where
  "strip s = rev (dropWhile is_space (rev (dropWhile is_space s)))"

text \<open>\<^verbatim>\<open>s.split(sep)\<close> for a one-character separator: always at least one piece.\<close>

fun split_on :: "char \<Rightarrow> string \<Rightarrow> string list" where
  "split_on sep [] = [[]]"
| "split_on sep (c # cs) =
     (if c = sep then [] # split_on sep cs
      else (case split_on sep cs of
              [] \<Rightarrow> [[c]]
            | w # ws \<Rightarrow> (c # w) # ws))"

text \<open>
  \<^verbatim>\<open>int(s)\<close> in base 10: surrounding whitespace is ignored, one sign is allowed, then
  decimal digits, where single underscores may stand between two digits. Everything else
  raises \<^verbatim>\<open>ValueError\<close>. The whitespace \<^verbatim>\<open>int\<close> ignores is not that of
  \<^verbatim>\<open>str.isspace\<close>: the separators 28..31 are not part of it. A literal with more
  digits than \<^verbatim>\<open>sys.get_int_max_str_digits()\<close> raises \<^verbatim>\<open>ValueError\<close> as well; the
  program does not change the interpreter's default of 4300. Every digit counts, leading
  zeros too; the sign, the underscores and the whitespace do not.
\<close>

definition int_max_str_digits :: nat where
  "int_max_str_digits = 4300"

definition is_int_space :: "char \<Rightarrow> bool" where
  "is_int_space c = (let n = (of_char c :: nat)
                     in (9 \<le> n \<and> n \<le> 13) \<or> n = 32 \<or> n = 133 \<or> n = 160)"

fun digits_ok :: "string \<Rightarrow> bool" where
  "digits_ok [] = False"
| "digits_ok [c] = is_digit c"
| "digits_ok (c # d # cs) =
     (if is_digit c then (if d = CHR ''_'' then digits_ok cs else digits_ok (d # cs))
      else False)"

definition digits_value :: "string \<Rightarrow> int" where
  "digits_value s = foldl (\<lambda>acc c. acc * 10 + digit_val c) 0 (filter is_digit s)"

definition py_int :: "string \<Rightarrow> exn + int" where
  "py_int s =
     (let t = rev (dropWhile is_int_space (rev (dropWhile is_int_space s)));
          neg = (t \<noteq> [] \<and> hd t = CHR ''-'');
          body = (if t \<noteq> [] \<and> (hd t = CHR ''-'' \<or> hd t = CHR ''+'') then tl t else t)
      in if digits_ok body \<and> length (filter is_digit body) \<le> int_max_str_digits
         then Inr (if neg then - digits_value body else digits_value body)
         else Inl ValueError)"

text \<open>\<^verbatim>\<open>str(i)\<close> and \<^verbatim>\<open>f"{i}"\<close> for an integer.\<close>

definition digit_char :: "nat \<Rightarrow> char" where
  "digit_char n = char_of (48 + n)"

fun str_nat :: "nat \<Rightarrow> string" where
  "str_nat n = (if n < 10 then [digit_char n] else str_nat (n div 10) @ [digit_char (n mod 10)])"

declare str_nat.simps [simp del]

definition str_int :: "int \<Rightarrow> string" where
  "str_int i = (if i < 0 then CHR ''-'' # str_nat (nat (- i)) else str_nat (nat i))"

section \<open>The port-list parser\<close>

text \<open>
  \<^verbatim>\<open>parse_ports\<close>: the loop over \<^verbatim>\<open>ports_str.split(",")\<close> with the accumulator
  \<^verbatim>\<open>ports\<close>; the first failing \<^verbatim>\<open>int(...)\<close> leaves the function with its
  \<^verbatim>\<open>ValueError\<close>. \<open>parse_part\<close> is one pass through the loop body and gives the
  extended accumulator.
\<close>

definition py_range :: "int \<Rightarrow> int \<Rightarrow> int list" where
  "py_range a b = [a..b - 1]"

definition parse_part :: "string \<Rightarrow> int list \<Rightarrow> exn + int list" where
  "parse_part part0 ports =
     (let part = strip part0
      in if part = [] then Inr ports
         else if CHR ''-'' \<in> set part then
           (let start_s = takeWhile (\<lambda>c. c \<noteq> CHR ''-'') part;
                end_s = tl (dropWhile (\<lambda>c. c \<noteq> CHR ''-'') part)
            in case py_int start_s of
                 Inl e \<Rightarrow> Inl e
               | Inr start \<Rightarrow>
                  (case py_int end_s of
                     Inl e \<Rightarrow> Inl e
                   | Inr end \<Rightarrow>
                      (if start > end then Inr (ports @ py_range end (start + 1))
                       else Inr (ports @ py_range start (end + 1)))))
         else (case py_int part of
                 Inl e \<Rightarrow> Inl e
               | Inr p \<Rightarrow> Inr (ports @ [p])))"

fun parse_loop :: "string list \<Rightarrow> int list \<Rightarrow> exn + int list" where
  "parse_loop [] ports = Inr ports"
| "parse_loop (part # parts) ports =
     (case parse_part part ports of
        Inl e \<Rightarrow> Inl e
      | Inr ports' \<Rightarrow> parse_loop parts ports')"

definition parse_ports :: "string \<Rightarrow> exn + int list" where
  "parse_ports ports_str =
     (case parse_loop (split_on (CHR '','') ports_str) [] of
        Inl e \<Rightarrow> Inl e
      | Inr ports \<Rightarrow> Inr (sorted_list_of_set (set ports)))"




section \<open>The environment of a run\<close>

text \<open>
  What the program reads from outside is a field of the record \<open>world\<close>: the replies of
  the operating system and of the network, the two library functions of \<^verbatim>\<open>ipaddress\<close>
  whose text is not part of the repository (the parser \<^verbatim>\<open>ip_network(cidr, strict=False)\<close>
  and the printing of an IPv6 address), what \<^verbatim>\<open>settimeout\<close> makes of a timeout (the
  values it refuses depend on the platform), and the order in which \<^verbatim>\<open>as_completed\<close>
  yields the futures. A reply may depend on the task (its position in the submission
  order) as well as on the target, since two tasks for one target are two probes.
\<close>

datatype ip_network = IPv4Network nat nat | IPv6Network nat nat

datatype ip_address = IPv4Address nat | IPv6Address nat

datatype run_outcome = Returncode int | RunRaised exn

datatype connect_outcome = Errno int | ConnectRaised exn

datatype get_outcome = Response int | GetRaised exn

record world =
  yield_order :: "nat list"
  platform_system :: string
  subprocess_run :: "nat \<Rightarrow> string list \<Rightarrow> run_outcome"
  gethostbyname :: "string \<Rightarrow> exn + string"
  socket_socket :: "nat \<Rightarrow> exn option"
  settimeout :: "pyfloat \<Rightarrow> exn option"
  connect_ex :: "nat \<Rightarrow> string \<times> int \<Rightarrow> connect_outcome"
  requests_get :: "nat \<Rightarrow> string \<Rightarrow> get_outcome"
  ip_network :: "string \<Rightarrow> exn + ip_network"
  str_ipv6 :: "nat \<Rightarrow> string"

text \<open>
  What the program does to the outside and a claim speaks about: a name resolution, and
  a task handed to the executor (\<^verbatim>\<open>executor.submit(fn, ...)\<close>, one constructor for each
  probe function, with the arguments of the call). A function that has such effects
  returns them, in order, beside its result. Calls of the logger are not modelled.
\<close>

datatype call =
    Gethostbyname string
  | Submit_ping_host string int
  | Submit_scan_port string int pyfloat
  | Submit_check_http_url string pyfloat

type_synonym 'a run = "call list \<times> (exn + 'a)"

section \<open>Networks of the \<^verbatim>\<open>ipaddress\<close> module\<close>

text \<open>
  \<open>IPv4Network a p\<close> and \<open>IPv6Network a p\<close> are the network objects with
  \<^verbatim>\<open>int(network_address) = a\<close> and \<^verbatim>\<open>prefixlen = p\<close>. \<open>network_hosts\<close> is the method
  \<^verbatim>\<open>hosts()\<close> and follows the library:
  \<^verbatim>\<open>range(network + 1, broadcast)\<close> for IPv4, \<^verbatim>\<open>range(network + 1, broadcast + 1)\<close>
  for IPv6, replaced in the constructor by \<^verbatim>\<open>__iter__\<close> (the whole block) when the prefix
  is one bit short of the address, and by the one address when it is the whole address.
  The library builds such objects with \<open>valid_network\<close>: \<^verbatim>\<open>strict=False\<close> masks the host
  bits away.
\<close>

unbundle bit_operations_syntax

fun max_prefixlen :: "ip_network \<Rightarrow> nat" where
  "max_prefixlen (IPv4Network a p) = 32"
| "max_prefixlen (IPv6Network a p) = 128"

fun network_address :: "ip_network \<Rightarrow> nat" where
  "network_address (IPv4Network a p) = a"
| "network_address (IPv6Network a p) = a"

fun prefixlen :: "ip_network \<Rightarrow> nat" where
  "prefixlen (IPv4Network a p) = p"
| "prefixlen (IPv6Network a p) = p"

definition hostmask :: "ip_network \<Rightarrow> nat" where
  "hostmask net = 2 ^ (max_prefixlen net - prefixlen net) - 1"

definition broadcast_address :: "ip_network \<Rightarrow> nat" where
  "broadcast_address net = network_address net OR hostmask net"

definition valid_network :: "ip_network \<Rightarrow> bool" where
  "valid_network net =
     (prefixlen net \<le> max_prefixlen net
      \<and> network_address net < 2 ^ max_prefixlen net
      \<and> network_address net AND hostmask net = 0)"

fun address_class :: "ip_network \<Rightarrow> nat \<Rightarrow> ip_address" where
  "address_class (IPv4Network a p) x = IPv4Address x"
| "address_class (IPv6Network a p) x = IPv6Address x"

definition network_hosts :: "ip_network \<Rightarrow> ip_address list" where
  "network_hosts net =
     (let network = network_address net;
          broadcast = broadcast_address net
      in if prefixlen net = max_prefixlen net - 1
         then map (address_class net) [network..<broadcast + 1]
         else if prefixlen net = max_prefixlen net
         then [address_class net network]
         else (case net of
                 IPv4Network a p \<Rightarrow> map IPv4Address [network + 1..<broadcast]
               | IPv6Network a p \<Rightarrow> map IPv6Address [network + 1..<broadcast + 1]))"

text \<open>\<^verbatim>\<open>str(h)\<close> for an address: the dotted quad of an IPv4 address.\<close>

definition str_ipv4 :: "nat \<Rightarrow> string" where
  "str_ipv4 a =
     str_nat (a div 16777216 mod 256) @ ''.'' @ str_nat (a div 65536 mod 256) @ ''.''
       @ str_nat (a div 256 mod 256) @ ''.'' @ str_nat (a mod 256)"

fun str_address :: "world \<Rightarrow> ip_address \<Rightarrow> string" where
  "str_address w (IPv4Address a) = str_ipv4 a"
| "str_address w (IPv6Address a) = str_ipv6 w a"

fun address_int :: "ip_address \<Rightarrow> nat" where
  "address_int (IPv4Address a) = a"
| "address_int (IPv6Address a) = a"

section \<open>The executor\<close>

text \<open>
  A future is the pair of the target it was submitted for (what \<^verbatim>\<open>future_map[future]\<close>
  gives) and of what \<^verbatim>\<open>future.result()\<close> gives: the value the task returned, or the
  exception it raised. \<^verbatim>\<open>as_completed\<close> yields every future of the dictionary exactly
  once, in an order that the program does not fix and that is not the order in which the
  tasks finish either: the futures already finished when it is called come first, in the
  iteration order of a set, and the others follow as they finish. All the model says of
  that order is that it is some rearrangement of the futures, chosen by the field
  \<open>yield_order\<close> of the world: its head \<open>k\<close> says that of the futures not yet yielded,
  in submission order, the one at position \<open>k mod\<close> their number is yielded next; when
  the list is used up the remaining futures are yielded in submission order. Every
  rearrangement is the result of some such list.

  \<^verbatim>\<open>ThreadPoolExecutor(max_workers=n)\<close> raises \<^verbatim>\<open>ValueError\<close> for \<open>n \<le> 0\<close>.
\<close>

fun as_completed :: "nat list \<Rightarrow> 'a list \<Rightarrow> 'a list" where
  "as_completed sched [] = []"
| "as_completed [] (f # fs) = f # fs"
| "as_completed (k # sched) (f # fs) =
     (let j = k mod length (f # fs)
      in (f # fs) ! j # as_completed sched (take j (f # fs) @ drop (Suc j) (f # fs)))"

section \<open>Ping sweep\<close>

text \<open>
  \<^verbatim>\<open>ping_host\<close>: \<open>platform_system\<close> is \<^verbatim>\<open>platform.system().lower()\<close>, and
  \<open>subprocess_run w i cmd\<close> is what \<^verbatim>\<open>subprocess.run(cmd, ...)\<close> does in task \<open>i\<close>:
  it returns a process with a return code, or raises. The task of a ping never raises,
  so the result of its future is always a value.
\<close>

definition ping_host :: "world \<Rightarrow> nat \<Rightarrow> string \<Rightarrow> int \<Rightarrow> bool" where
  "ping_host w i host timeout =
     (let cmd = (if platform_system w = ''windows''
                 then [''ping'', ''-n'', ''1'', ''-w'', str_int (timeout * 1000), host]
                 else [''ping'', ''-c'', ''1'', ''-W'', str_int timeout, host])
      in case subprocess_run w i cmd of
           Returncode returncode \<Rightarrow> returncode = 0
         | RunRaised e \<Rightarrow> False)"

definition ping_futures :: "world \<Rightarrow> string list \<Rightarrow> int \<Rightarrow> (string \<times> (exn + bool)) list" where
  "ping_futures w hosts timeout =
     map (\<lambda>(i, host). (host, Inr (ping_host w i host timeout))) (enumerate 0 hosts)"

text \<open>
  The loop \<^verbatim>\<open>for future in as_completed(future_map)\<close> of both sweeps, with the
  accumulator \<^verbatim>\<open>live_hosts\<close>: a host that is up is appended, a host that is down or
  whose task raised is only logged.
\<close>

fun ping_collect :: "(string \<times> (exn + bool)) list \<Rightarrow> string list \<Rightarrow> string list" where
  "ping_collect [] live_hosts = live_hosts"
| "ping_collect ((host, res) # futures) live_hosts =
     (case res of
        Inr up \<Rightarrow> (if up then ping_collect futures (live_hosts @ [host])
                   else ping_collect futures live_hosts)
      | Inl e \<Rightarrow> ping_collect futures live_hosts)"

definition ping_sweep_cidr :: "world \<Rightarrow> string \<Rightarrow> int \<Rightarrow> int \<Rightarrow> string list run" where
  "ping_sweep_cidr w cidr timeout max_workers =
     (case ip_network w cidr of
        Inl ValueError \<Rightarrow> ([], Inr [])
      | Inl e \<Rightarrow> ([], Inl e)
      | Inr network \<Rightarrow>
         (let hosts = map (str_address w) (network_hosts network)
          in if max_workers \<le> 0 then ([], Inl ValueError)
             else (map (\<lambda>host. Submit_ping_host host timeout) hosts,
                   Inr (ping_collect
                          (as_completed (yield_order w) (ping_futures w hosts timeout)) []))))"

definition endswith :: "string \<Rightarrow> string \<Rightarrow> bool" where
  "endswith s suffix = (length suffix \<le> length s \<and> drop (length s - length suffix) s = suffix)"

definition ping_sweep_range ::
  "world \<Rightarrow> string \<Rightarrow> int \<Rightarrow> int \<Rightarrow> int \<Rightarrow> int \<Rightarrow> string list run" where
  "ping_sweep_range w base_network start end timeout max_workers =
     (if \<not> endswith base_network ''.'' then ([], Inr [])
      else (let hosts = map (\<lambda>i. base_network @ str_int i) (py_range start (end + 1))
            in if max_workers \<le> 0 then ([], Inl ValueError)
               else (map (\<lambda>host. Submit_ping_host host timeout) hosts,
                     Inr (ping_collect
                            (as_completed (yield_order w) (ping_futures w hosts timeout)) []))))"

section \<open>Port scanner\<close>

text \<open>
  \<^verbatim>\<open>scan_port\<close>: the socket is created and its timeout set before the \<^verbatim>\<open>try\<close>.
  \<^verbatim>\<open>socket.socket\<close> can raise, and so can \<^verbatim>\<open>settimeout\<close> (\<^verbatim>\<open>ValueError\<close> for a
  negative timeout and for NaN, \<^verbatim>\<open>OverflowError\<close> for a timeout too large for the
  platform's time type); \<open>settimeout w timeout\<close> is the exception it raises, if any. Only
  \<^verbatim>\<open>connect_ex\<close> is inside the \<^verbatim>\<open>try\<close>.
\<close>

definition scan_port :: "world \<Rightarrow> nat \<Rightarrow> string \<Rightarrow> int \<Rightarrow> pyfloat \<Rightarrow> exn + bool" where
  "scan_port w i host port timeout =
     (case socket_socket w i of
        Some e \<Rightarrow> Inl e
      | None \<Rightarrow>
         (case settimeout w timeout of
            Some e \<Rightarrow> Inl e
          | None \<Rightarrow>
             (case connect_ex w i (host, port) of
                Errno result \<Rightarrow> Inr (result = 0)
              | ConnectRaised e \<Rightarrow> Inr False)))"

definition scan_futures ::
  "world \<Rightarrow> string \<Rightarrow> int list \<Rightarrow> pyfloat \<Rightarrow> (int \<times> (exn + bool)) list" where
  "scan_futures w target_ip ports timeout =
     map (\<lambda>(i, port). (port, scan_port w i target_ip port timeout)) (enumerate 0 ports)"

fun scan_collect :: "(int \<times> (exn + bool)) list \<Rightarrow> int list \<Rightarrow> int list" where
  "scan_collect [] open_ports = open_ports"
| "scan_collect ((port, res) # futures) open_ports =
     (case res of
        Inr is_open \<Rightarrow> (if is_open then scan_collect futures (open_ports @ [port])
                        else scan_collect futures open_ports)
      | Inl e \<Rightarrow> scan_collect futures open_ports)"

definition port_scan :: "world \<Rightarrow> string \<Rightarrow> int list \<Rightarrow> pyfloat \<Rightarrow> int \<Rightarrow> int list run" where
  "port_scan w host ports timeout max_workers =
     (case gethostbyname w host of
        Inl (Gaierror msg) \<Rightarrow> ([Gethostbyname host], Inr [])
      | Inl e \<Rightarrow> ([Gethostbyname host], Inl e)
      | Inr target_ip \<Rightarrow>
         (if max_workers \<le> 0 then ([Gethostbyname host], Inl ValueError)
          else (Gethostbyname host # map (\<lambda>port. Submit_scan_port target_ip port timeout) ports,
                Inr (scan_collect
                       (as_completed (yield_order w) (scan_futures w target_ip ports timeout))
                       []))))"

section \<open>HTTP checker\<close>

text \<open>
  \<^verbatim>\<open>check_http_url\<close>: \<open>requests_get w i url\<close> is what \<^verbatim>\<open>requests.get(url, timeout=...)\<close>
  does in task \<open>i\<close>: it returns a response with a status code, or raises. Only a
  \<^verbatim>\<open>RequestException\<close> is caught, its message being \<^verbatim>\<open>str(e)\<close>; any other exception
  leaves the function and is what \<^verbatim>\<open>future.result()\<close> raises in \<^verbatim>\<open>http_check\<close>.
\<close>

type_synonym http_result = "string \<times> bool \<times> int \<times> string"

definition check_http_url :: "world \<Rightarrow> nat \<Rightarrow> string \<Rightarrow> pyfloat \<Rightarrow> exn + http_result" where
  "check_http_url w i url timeout =
     (case requests_get w i url of
        Response status_code \<Rightarrow> Inr (url, status_code < 400, status_code, [])
      | GetRaised (RequestException msg) \<Rightarrow> Inr (url, False, 0, msg)
      | GetRaised e \<Rightarrow> Inl e)"

definition http_futures ::
  "world \<Rightarrow> string list \<Rightarrow> pyfloat \<Rightarrow> (string \<times> (exn + http_result)) list" where
  "http_futures w urls timeout =
     map (\<lambda>(i, url). (url, check_http_url w i url timeout)) (enumerate 0 urls)"

fun http_collect ::
  "(string \<times> (exn + http_result)) list \<Rightarrow> http_result list \<Rightarrow> http_result list" where
  "http_collect [] results = results"
| "http_collect ((url, res) # futures) results =
     (case res of
        Inr result \<Rightarrow> http_collect futures (results @ [result])
      | Inl e \<Rightarrow> http_collect futures results)"

definition http_check :: "world \<Rightarrow> string list \<Rightarrow> pyfloat \<Rightarrow> int \<Rightarrow> http_result list run" where
  "http_check w urls timeout max_workers =
     (if max_workers \<le> 0 then ([], Inl ValueError)
      else (map (\<lambda>url. Submit_check_http_url url timeout) urls,
            Inr (http_collect (as_completed (yield_order w) (http_futures w urls timeout)) [])))"

section \<open>The command line\<close>

text \<open>
  \<^verbatim>\<open>main\<close> after \<^verbatim>\<open>parse_args\<close>: the parsed arguments of the three subcommands are the
  three constructors of \<open>args\<close> (ping sweep: \<^verbatim>\<open>cidr\<close>, \<^verbatim>\<open>network\<close>, \<^verbatim>\<open>start\<close>,
  \<^verbatim>\<open>end\<close>, \<^verbatim>\<open>timeout\<close>, \<^verbatim>\<open>workers\<close>; port scan: \<^verbatim>\<open>host\<close>, \<^verbatim>\<open>ports\<close>,
  \<^verbatim>\<open>timeout\<close>, \<^verbatim>\<open>workers\<close>; HTTP check: \<^verbatim>\<open>urls\<close>, \<^verbatim>\<open>timeout\<close>,
  \<^verbatim>\<open>workers\<close>), an option that was not given being \<open>None\<close>. The result is the calls
  made, the lines printed and the return code. Every exception that reaches \<^verbatim>\<open>main\<close> is
  an \<^verbatim>\<open>Exception\<close> and gives the return code 1 (an interrupt by the user is not
  modelled); the lines are printed after the scan has returned, so a scan that raises
  prints nothing.
\<close>

datatype args =
    Ping_sweep "string option" "string option" "int option" "int option" int int
  | Port_scan string string pyfloat int
  | Http_check string pyfloat int

definition print_result :: "http_result \<Rightarrow> string" where
  "print_result r =
     (case r of (url, accessible, status_code, error) \<Rightarrow>
        if accessible then url @ '' OK (status='' @ str_int status_code @ '')''
        else if status_code \<noteq> 0 then url @ '' FAIL (status='' @ str_int status_code @ '')''
        else url @ '' ERROR ('' @ error @ '')'')"

text \<open>The \<^verbatim>\<open>else\<close> branch of \<^verbatim>\<open>if args.cidr\<close>; \<^verbatim>\<open>None.endswith\<close> raises.\<close>

definition main_network ::
  "world \<Rightarrow> string option \<Rightarrow> int option \<Rightarrow> int option \<Rightarrow> int \<Rightarrow> int
     \<Rightarrow> call list \<times> string list \<times> int" where
  "main_network w network start end timeout workers =
     (case (start, end) of
        (Some s, Some e) \<Rightarrow>
          (case network of
             None \<Rightarrow> ([], [], 1)
           | Some base_network \<Rightarrow>
              (case ping_sweep_range w base_network s e timeout workers of
                 (calls, Inr live_hosts) \<Rightarrow> (calls, live_hosts, 0)
               | (calls, Inl exc) \<Rightarrow> (calls, [], 1)))
      | _ \<Rightarrow> ([], [], 1))"

definition main :: "world \<Rightarrow> args \<Rightarrow> call list \<times> string list \<times> int" where
  "main w a =
     (case a of
        Ping_sweep cidr network start end timeout workers \<Rightarrow>
          (case cidr of
             None \<Rightarrow> main_network w network start end timeout workers
           | Some c \<Rightarrow>
              if c = [] then main_network w network start end timeout workers
              else (case ping_sweep_cidr w c timeout workers of
                      (calls, Inr live_hosts) \<Rightarrow> (calls, live_hosts, 0)
                    | (calls, Inl exc) \<Rightarrow> (calls, [], 1)))
      | Port_scan host ports_str timeout workers \<Rightarrow>
          (case parse_ports ports_str of
             Inl exc \<Rightarrow> ([], [], 1)
           | Inr ports \<Rightarrow>
              if ports = [] then ([], [], 1)
              else (case port_scan w host ports timeout workers of
                      (calls, Inr open_ports) \<Rightarrow> (calls, map str_int open_ports, 0)
                    | (calls, Inl exc) \<Rightarrow> (calls, [], 1)))
      | Http_check urls_str timeout workers \<Rightarrow>
          (let urls = filter (\<lambda>u. u \<noteq> []) (map strip (split_on (CHR '','') urls_str))
           in if urls = [] then ([], [], 1)
              else (case http_check w urls timeout workers of
                      (calls, Inr results) \<Rightarrow> (calls, map print_result results, 0)
                    | (calls, Inl exc) \<Rightarrow> (calls, [], 1))))"

section \<open>Reading runs and futures\<close>

text \<open>
  Three functions used to state what the loops compute: the results of the futures of a
  list that returned, in the order of the list; the targets of the futures whose probe
  returned \<^verbatim>\<open>True\<close>; and whether a call is a name resolution.
\<close>

definition returned :: "('t \<times> (exn + 'r)) list \<Rightarrow> 'r list" where
  "returned futures = map (\<lambda>f. projr (snd f)) (filter (\<lambda>f. \<not> isl (snd f)) futures)"

definition positive :: "('t \<times> (exn + bool)) list \<Rightarrow> 't list" where
  "positive futures = map fst (filter (\<lambda>f. snd f = Inr True) futures)"

fun is_resolution :: "call \<Rightarrow> bool" where
  "is_resolution (Gethostbyname host) = True"
| "is_resolution c = False"

section \<open>An example world\<close>

text \<open>
  A world for evaluating the functions on concrete inputs: of the futures not yet yielded
  the second is yielded first; every ping is answered; \<^verbatim>\<open>localhost\<close> resolves and no
  other name does; a socket can always be created; \<^verbatim>\<open>settimeout\<close> refuses NaN and
  negative timeouts with \<^verbatim>\<open>ValueError\<close> and, with \<^verbatim>\<open>OverflowError\<close>, the infinities
  and the timeouts whose nanoseconds do not fit into 64 bits; ports 22 and 80 accept
  connections and every other port refuses (\<^verbatim>\<open>ECONNREFUSED\<close>, 111); four URLs answer
  200, 404, with a transport error and with an exception that is not a
  \<^verbatim>\<open>RequestException\<close>; the CIDR parser knows three blocks at 10.0.0.0 (167772160) and
  rejects everything else.
\<close>

definition example_world :: world where
  "example_world =
     \<lparr> yield_order = [1],
       platform_system = ''linux'',
       subprocess_run = (\<lambda>i cmd. Returncode 0),
       gethostbyname =
         (\<lambda>host. if host = ''localhost'' then Inr ''127.0.0.1''
                 else Inl (Gaierror ''Name or service not known'')),
       socket_socket = (\<lambda>i. None),
       settimeout =
         (\<lambda>timeout. case timeout of
              Finite r \<Rightarrow>
                if r * 1000000000 < - 9223372036854775808 \<or> 9223372036854775807 < r * 1000000000
                then Some OverflowError
                else if r < 0 then Some ValueError else None
            | NaN \<Rightarrow> Some ValueError
            | _ \<Rightarrow> Some OverflowError),
       connect_ex = (\<lambda>i (host, port). if port = 22 \<or> port = 80 then Errno 0 else Errno 111),
       requests_get =
         (\<lambda>i url. if url = ''http://a'' then Response 200
                  else if url = ''http://b'' then Response 404
                  else if url = ''http://c'' then GetRaised (RequestException ''timed out'')
                  else GetRaised (OtherException ''boom'')),
       ip_network =
         (\<lambda>cidr. if cidr = ''10.0.0.0/30'' then Inr (IPv4Network 167772160 30)
                 else if cidr = ''10.0.0.0/31'' then Inr (IPv4Network 167772160 31)
                 else if cidr = ''10.0.0.0/32'' then Inr (IPv4Network 167772160 32)
                 else Inl ValueError),
       str_ipv6 = (\<lambda>a. []) \<rparr>"

section \<open>Properties of the port-list parser\<close>








lemma parse_ports_example_small: "parse_ports ''22,80'' = Inr [22, 80]"
  by code_simp



section \<open>Evaluation of decimal numerals\<close>

lemma digit_char_simps:
  "digit_char 0 = CHR ''0''" "digit_char (Suc 0) = CHR ''1''" "digit_char 1 = CHR ''1''"
  "digit_char 2 = CHR ''2''" "digit_char 3 = CHR ''3''" "digit_char 4 = CHR ''4''"
  "digit_char 5 = CHR ''5''" "digit_char 6 = CHR ''6''" "digit_char 7 = CHR ''7''"
  "digit_char 8 = CHR ''8''" "digit_char 9 = CHR ''9''"
  by (simp_all add: digit_char_def) code_simp+

subsection \<open>Numeric tokens pass through the parser whatever their value\<close>

lemma is_digit_digit_char: "d < 10 \<Longrightarrow> is_digit (digit_char d)"
  by (simp add: is_digit_def digit_char_def)

lemma digit_val_digit_char: "d < 10 \<Longrightarrow> digit_val (digit_char d) = int d"
  by (simp add: digit_val_def digit_char_def)

lemma str_nat_digits: "c \<in> set (str_nat n) \<Longrightarrow> is_digit c"
proof (induction n rule: str_nat.induct)
  case (1 n)
  then show ?case
    by (subst (asm) str_nat.simps) (auto simp: is_digit_digit_char split: if_splits)
qed

lemma str_nat_nonempty: "str_nat n \<noteq> []"
  by (subst str_nat.simps) simp

lemma is_digit_not_special:
  "is_digit c \<Longrightarrow>
     c \<noteq> CHR ''_'' \<and> c \<noteq> CHR ''-'' \<and> c \<noteq> CHR ''+'' \<and> c \<noteq> CHR '','' \<and> c \<noteq> CHR ''.''
     \<and> \<not> is_space c \<and> \<not> is_int_space c"
  by (auto simp: is_digit_def is_space_def is_int_space_def Let_def)

lemma digits_ok_all_digits: "s \<noteq> [] \<Longrightarrow> \<forall>c \<in> set s. is_digit c \<Longrightarrow> digits_ok s"
  by (induction s rule: digits_ok.induct) (auto dest: is_digit_not_special)

lemma digits_value_snoc:
  "is_digit c \<Longrightarrow> digits_value (s @ [c]) = digits_value s * 10 + digit_val c"
  by (simp add: digits_value_def)

lemma digits_value_str_nat: "digits_value (str_nat n) = int n"
proof (induction n rule: str_nat.induct)
  case (1 n)
  show ?case
  proof (cases "n < 10")
    case True
    then show ?thesis
      by (subst str_nat.simps)
         (simp add: digits_value_def is_digit_digit_char digit_val_digit_char)
  next
    case False
    then have "digits_value (str_nat n)
        = digits_value (str_nat (n div 10)) * 10 + digit_val (digit_char (n mod 10))"
      by (subst str_nat.simps) (simp add: digits_value_snoc is_digit_digit_char)
    also have "\<dots> = int (n div 10) * 10 + int (n mod 10)"
      using False "1.IH" by (simp add: digit_val_digit_char)
    also have "\<dots> = int n"
      by presburger
    finally show ?thesis .
  qed
qed

lemma dropWhile_none: "\<forall>c \<in> set s. \<not> P c \<Longrightarrow> dropWhile P s = s"
  by (cases s) auto

lemma strip_no_space: "\<forall>c \<in> set s. \<not> is_space c \<Longrightarrow> strip s = s"
  by (simp add: strip_def dropWhile_none)

lemma strip_str_nat: "strip (str_nat n) = str_nat n"
  by (rule strip_no_space) (auto dest: str_nat_digits is_digit_not_special)

lemma py_int_digits:
  assumes "d \<noteq> []" and "\<forall>c \<in> set d. is_digit c" and "length d \<le> int_max_str_digits"
  shows "py_int d = Inr (digits_value d)"
proof -
  have "hd d \<in> set d"
    using assms(1) by simp
  then have "is_digit (hd d)"
    using assms(2) by blast
  then have h: "hd d \<noteq> CHR ''-''" "hd d \<noteq> CHR ''+''"
    by (auto dest: is_digit_not_special)
  have o: "digits_ok d"
    using assms(1,2) by (rule digits_ok_all_digits)
  have t: "rev (dropWhile is_int_space (rev (dropWhile is_int_space d))) = d"
    using assms(2) by (simp add: dropWhile_none is_digit_not_special)
  have f: "filter is_digit d = d"
    using assms(2) by simp
  show ?thesis
    using h o assms(3) by (simp add: py_int_def t f)
qed

lemma py_int_str_nat:
  assumes "length (str_nat n) \<le> int_max_str_digits"
  shows "py_int (str_nat n) = Inr (int n)"
  using py_int_digits [OF str_nat_nonempty _ assms] str_nat_digits
  by (simp add: digits_value_str_nat)

lemma set_strip: "set (strip t) \<subseteq> set t"
  by (auto simp: strip_def dest!: set_dropWhileD)

lemma py_int_nonempty: "py_int s = Inr n \<Longrightarrow> s \<noteq> []"
  by (auto simp: py_int_def)

lemma split_on_nonempty: "split_on sep s \<noteq> []"
  by (induction s) (auto split: list.splits)

lemma split_on_append:
  "split_on sep (s @ sep # t) = split_on sep s @ split_on sep t"
  by (induction s) (auto split: list.splits simp: split_on_nonempty)

lemma split_on_absent: "sep \<notin> set s \<Longrightarrow> split_on sep s = [s]"
  by (induction s) auto

lemma parse_loop_append:
  "parse_loop (xs @ ys) acc =
     (case parse_loop xs acc of Inl e \<Rightarrow> Inl e | Inr acc' \<Rightarrow> parse_loop ys acc')"
  by (induction xs arbitrary: acc) (auto split: sum.splits)

lemma parse_part_numeric:
  assumes "CHR ''-'' \<notin> set t" and "py_int (strip t) = Inr n"
  shows "parse_part t acc = Inr (acc @ [n])"
proof -
  have "CHR ''-'' \<notin> set (strip t)"
    using assms(1) set_strip by blast
  moreover have "strip t \<noteq> []"
    using assms(2) by (rule py_int_nonempty)
  ultimately show ?thesis
    using assms(2) by (simp add: parse_part_def)
qed

lemma parse_ports_numeric:
  assumes "CHR '','' \<notin> set t" and "CHR ''-'' \<notin> set t" and "py_int (strip t) = Inr n"
  shows "parse_ports t = Inr [n]"
  by (simp add: parse_ports_def split_on_absent [OF assms(1)] parse_part_numeric [OF assms(2,3)])

lemma parse_ports_append_numeric:
  assumes "CHR '','' \<notin> set t" and "CHR ''-'' \<notin> set t" and "py_int (strip t) = Inr n"
    and "parse_ports s = Inr ps"
  shows "parse_ports (s @ CHR '','' # t) = Inr (sorted_list_of_set (insert n (set ps)))"
proof -
  from assms(4) obtain acc where acc: "parse_loop (split_on (CHR '','') s) [] = Inr acc"
      and ps: "ps = sorted_list_of_set (set acc)"
    by (auto simp: parse_ports_def split: sum.splits)
  show ?thesis
    by (simp add: parse_ports_def split_on_append parse_loop_append acc ps
          split_on_absent [OF assms(1)] parse_part_numeric [OF assms(2,3)])
qed

lemma parse_ports_numeral:
  assumes "length (str_nat m) \<le> int_max_str_digits"
  shows "parse_ports (str_nat m) = Inr [int m]"
proof -
  have "CHR '','' \<notin> set (str_nat m)" "CHR ''-'' \<notin> set (str_nat m)"
    by (auto dest: str_nat_digits is_digit_not_special)
  then show ?thesis
    by (rule parse_ports_numeric) (simp add: strip_str_nat py_int_str_nat [OF assms])
qed

text \<open>The digits of a string survive the stripping of whitespace and of a sign.\<close>

lemma filter_digit_dropWhile:
  assumes "\<And>c. P c \<Longrightarrow> \<not> is_digit c"
  shows "filter is_digit (dropWhile P s) = filter is_digit s"
  using assms by (induction s) auto

lemma filter_digit_trim:
  assumes "\<And>c. P c \<Longrightarrow> \<not> is_digit c"
  shows "filter is_digit (rev (dropWhile P (rev (dropWhile P s)))) = filter is_digit s"
proof -
  have "filter is_digit (rev (dropWhile P (rev (dropWhile P s))))
          = rev (filter is_digit (dropWhile P (rev (dropWhile P s))))"
    by (simp only: rev_filter)
  also have "\<dots> = rev (filter is_digit (rev (dropWhile P s)))"
    by (simp only: filter_digit_dropWhile [of P, OF assms])
  also have "\<dots> = filter is_digit (dropWhile P s)"
    by (simp only: rev_filter rev_rev_ident)
  also have "\<dots> = filter is_digit s"
    by (rule filter_digit_dropWhile [OF assms])
  finally show ?thesis .
qed

lemma filter_digit_strip: "filter is_digit (strip s) = filter is_digit s"
  unfolding strip_def by (rule filter_digit_trim) (auto dest: is_digit_not_special)

lemma filter_digit_tl:
  "s \<noteq> [] \<Longrightarrow> \<not> is_digit (hd s) \<Longrightarrow> filter is_digit (tl s) = filter is_digit s"
  by (cases s) simp_all

lemma py_int_too_long:
  assumes "int_max_str_digits < length (filter is_digit s)"
  shows "py_int s = Inl ValueError"
proof -
  define t where "t = rev (dropWhile is_int_space (rev (dropWhile is_int_space s)))"
  define body where
    "body = (if t \<noteq> [] \<and> (hd t = CHR ''-'' \<or> hd t = CHR ''+'') then tl t else t)"
  have t: "filter is_digit t = filter is_digit s"
    unfolding t_def by (rule filter_digit_trim) (auto dest: is_digit_not_special)
  have "filter is_digit body = filter is_digit t"
  proof (cases "t \<noteq> [] \<and> (hd t = CHR ''-'' \<or> hd t = CHR ''+'')")
    case True
    then have "\<not> is_digit (hd t)"
      by (auto dest: is_digit_not_special)
    then have "filter is_digit (tl t) = filter is_digit t"
      using True by (simp add: filter_digit_tl)
    then show ?thesis
      using True by (simp add: body_def)
  next
    case False
    then show ?thesis
      unfolding body_def by auto
  qed
  then have "int_max_str_digits < length (filter is_digit body)"
    using assms t by simp
  then have "\<not> (digits_ok body \<and> length (filter is_digit body) \<le> int_max_str_digits)"
    by simp
  then show ?thesis
    unfolding py_int_def Let_def t_def [symmetric] body_def [symmetric] by simp
qed

lemma parse_ports_too_long:
  assumes "CHR '','' \<notin> set u" and "CHR ''-'' \<notin> set u"
    and "int_max_str_digits < length (filter is_digit u)"
  shows "parse_ports u = Inl ValueError"
proof -
  have l: "int_max_str_digits < length (filter is_digit (strip u))"
    using assms(3) by (simp only: filter_digit_strip)
  then have "strip u \<noteq> []"
    by auto
  moreover have "CHR ''-'' \<notin> set (strip u)"
    using assms(2) set_strip by blast
  moreover have "py_int (strip u) = Inl ValueError"
    using l by (rule py_int_too_long)
  ultimately have "parse_part u [] = Inl ValueError"
    by (simp add: parse_part_def)
  then show ?thesis
    by (simp add: parse_ports_def split_on_absent [OF assms(1)])
qed

text \<open>
  C10, as the code has it. \<^verbatim>\<open>parse_ports\<close> validates no bounds: every numeric token (a
  token without \<^verbatim>\<open>-\<close> that, stripped, \<^verbatim>\<open>int\<close> accepts) is accepted whatever its value,
  inside the TCP port range or outside (0 and 99999 as much as a valid port), and its
  number is in the returned list, alone or after any specification that parses. \<^verbatim>\<open>int\<close>
  accepts every string of 1 to 4300 digits and gives its value. The only numerals
  rejected are those of more than 4300 digits, which \<^verbatim>\<open>int\<close> itself refuses with
  \<^verbatim>\<open>ValueError\<close>.
\<close>

theorem parse_ports_no_bounds:
  "(CHR '','' \<notin> set t \<and> CHR ''-'' \<notin> set t \<and> py_int (strip t) = Inr n \<longrightarrow>
      parse_ports t = Inr [n]
      \<and> (\<forall>s ps. parse_ports s = Inr ps \<longrightarrow>
            parse_ports (s @ CHR '','' # t) = Inr (sorted_list_of_set (insert n (set ps)))))
   \<and> (d \<noteq> [] \<and> (\<forall>c \<in> set d. is_digit c) \<and> length d \<le> int_max_str_digits \<longrightarrow>
        py_int (strip d) = Inr (digits_value d))
   \<and> (length (str_nat m) \<le> int_max_str_digits \<longrightarrow> parse_ports (str_nat m) = Inr [int m])
   \<and> (CHR '','' \<notin> set u \<and> CHR ''-'' \<notin> set u
        \<and> int_max_str_digits < length (filter is_digit u) \<longrightarrow>
        parse_ports u = Inl ValueError)"
proof -
  have 1: "CHR '','' \<notin> set t \<and> CHR ''-'' \<notin> set t \<and> py_int (strip t) = Inr n \<longrightarrow>
      parse_ports t = Inr [n]
      \<and> (\<forall>s ps. parse_ports s = Inr ps \<longrightarrow>
            parse_ports (s @ CHR '','' # t) = Inr (sorted_list_of_set (insert n (set ps))))"
    using parse_ports_numeric parse_ports_append_numeric by blast
  have 2: "d \<noteq> [] \<and> (\<forall>c \<in> set d. is_digit c) \<and> length d \<le> int_max_str_digits \<longrightarrow>
        py_int (strip d) = Inr (digits_value d)"
    using py_int_digits [of d] strip_no_space [of d] is_digit_not_special by auto
  have 3: "length (str_nat m) \<le> int_max_str_digits \<longrightarrow> parse_ports (str_nat m) = Inr [int m]"
    using parse_ports_numeral by blast
  have 4: "CHR '','' \<notin> set u \<and> CHR ''-'' \<notin> set u
        \<and> int_max_str_digits < length (filter is_digit u) \<longrightarrow>
        parse_ports u = Inl ValueError"
    using parse_ports_too_long by blast
  from 1 2 3 4 show ?thesis
    by (intro conjI)
qed

lemma py_int_examples:
  "py_int (strip ''0'') = Inr 0" "py_int (strip ''99999'') = Inr 99999"
  "py_int (strip ''+99999'') = Inr 99999" "py_int (strip ''099999 '') = Inr 99999"
  by (simp_all add: py_int_def strip_def is_space_def is_int_space_def is_digit_def
        digits_value_def digit_val_def int_max_str_digits_def Let_def)

theorem parse_ports_no_bounds_witness:
  "parse_ports ''0'' = Inr [0]
   \<and> parse_ports ''99999'' = Inr [99999]
   \<and> parse_ports ''+99999'' = Inr [99999]
   \<and> parse_ports ''099999 '' = Inr [99999]
   \<and> parse_ports ''22,80'' = Inr [22, 80]
   \<and> parse_ports ''22,80,99999'' = Inr [22, 80, 99999]
   \<and> str_nat 65536 = ''65536''
   \<and> parse_ports (str_nat 65536) = Inr [65536]
   \<and> parse_ports (replicate 4301 (CHR ''9'')) = Inl ValueError"
proof -
  have A: "parse_ports t = Inr [n]
           \<and> (\<forall>s ps. parse_ports s = Inr ps \<longrightarrow>
                 parse_ports (s @ CHR '','' # t) = Inr (sorted_list_of_set (insert n (set ps))))"
    if "CHR '','' \<notin> set t" and "CHR ''-'' \<notin> set t" and "py_int (strip t) = Inr n" for t n
    using conjunct1 [OF parse_ports_no_bounds [of t n]] that by (elim impE) (intro conjI)
  have p: "parse_ports ''22,80'' = Inr [22, 80]"
    by (rule parse_ports_example_small)
  have a0: "parse_ports ''0'' = Inr [0]"
    using A [of "''0''" 0] py_int_examples(1) by simp
  have a1: "parse_ports ''99999'' = Inr [99999]"
    using A [of "''99999''" 99999] py_int_examples(2) by simp
  have a2: "parse_ports ''+99999'' = Inr [99999]"
    using A [of "''+99999''" 99999] py_int_examples(3) by simp
  have a3: "parse_ports ''099999 '' = Inr [99999]"
    using A [of "''099999 ''" 99999] py_int_examples(4) by simp
  have "parse_ports ''99999'' = Inr [99999]
        \<and> (\<forall>s ps. parse_ports s = Inr ps \<longrightarrow>
              parse_ports (s @ CHR '','' # ''99999'')
                = Inr (sorted_list_of_set (insert 99999 (set ps))))"
    by (rule A) (simp_all add: py_int_examples)
  then have "parse_ports (''22,80'' @ CHR '','' # ''99999'')
          = Inr (sorted_list_of_set (insert 99999 (set [22, 80])))"
    using p by blast
  moreover have "sorted_list_of_set (insert (99999 :: int) (set [22, 80])) = [22, 80, 99999]"
    by simp
  ultimately have a4: "parse_ports ''22,80,99999'' = Inr [22, 80, 99999]"
    by simp
  have n: "str_nat 65536 = ''65536''"
    by (simp add: str_nat.simps digit_char_simps)
  then have "length (str_nat 65536) \<le> int_max_str_digits"
    by (simp add: int_max_str_digits_def)
  then have a5: "parse_ports (str_nat 65536) = Inr [65536]"
    using conjunct1 [OF conjunct2 [OF conjunct2 [OF parse_ports_no_bounds [of _ _ _ 65536]]]]
    by simp
  have "is_digit (CHR ''9'')"
    by (simp add: is_digit_def)
  then have "filter is_digit (replicate 4301 (CHR ''9'')) = replicate 4301 (CHR ''9'')"
    by (simp only: filter_replicate if_True)
  then have "int_max_str_digits < length (filter is_digit (replicate 4301 (CHR ''9'')))"
    by (simp only: length_replicate int_max_str_digits_def)
  moreover have "CHR '','' \<notin> set (replicate 4301 (CHR ''9''))"
      "CHR ''-'' \<notin> set (replicate 4301 (CHR ''9''))"
    by (simp_all only: set_replicate_conv_if) simp_all
  ultimately have a6: "parse_ports (replicate 4301 (CHR ''9'')) = Inl ValueError"
    using conjunct2 [OF conjunct2 [OF conjunct2 [OF parse_ports_no_bounds
            [of _ _ _ _ "replicate 4301 (CHR ''9'')"]]]]
    by (elim impE) (intro conjI)
  from a0 a1 a2 a3 p a4 n a5 a6 show ?thesis
    by (intro conjI)
qed

text \<open>
  C10 as stated fails: the numeral of \<open>10 ^ 4300\<close>, a one followed by 4300 zeros, is a
  numeric token outside the port range that is rejected with an error.
\<close>

theorem parse_ports_rejects_long_numeral:
  "parse_ports (CHR ''1'' # replicate 4300 (CHR ''0'')) = Inl ValueError"
proof -
  have d: "is_digit (CHR ''1'')" "is_digit (CHR ''0'')"
    by (simp_all add: is_digit_def)
  have "filter is_digit (CHR ''1'' # replicate 4300 (CHR ''0'')) = CHR ''1'' # replicate 4300 (CHR ''0'')"
    using d by (simp only: filter.simps filter_replicate if_True)
  then have "int_max_str_digits < length (filter is_digit (CHR ''1'' # replicate 4300 (CHR ''0'')))"
    by (simp only: length_Cons length_replicate int_max_str_digits_def)
  moreover have "CHR '','' \<notin> set (CHR ''1'' # replicate 4300 (CHR ''0''))"
      "CHR ''-'' \<notin> set (CHR ''1'' # replicate 4300 (CHR ''0''))"
    by (simp_all only: set_simps set_replicate_conv_if) simp_all
  ultimately show ?thesis
    by (intro parse_ports_too_long)
qed

section \<open>The yield order is a rearrangement of the futures\<close>

lemma mset_remove_nth:
  "j < length xs \<Longrightarrow> mset (xs ! j # take j xs @ drop (Suc j) xs) = mset xs"
proof -
  assume "j < length xs"
  then have "xs = take j xs @ xs ! j # drop (Suc j) xs"
    by (rule id_take_nth_drop)
  then have "mset xs = mset (take j xs @ xs ! j # drop (Suc j) xs)"
    by simp
  then show ?thesis by simp
qed

lemma mset_as_completed: "mset (as_completed sched fs) = mset fs"
proof (induction sched fs rule: as_completed.induct)
  case (3 k sched f fs)
  let ?j = "k mod length (f # fs)"
  have j: "?j < length (f # fs)" by simp
  have "mset (as_completed (k # sched) (f # fs))
      = mset ((f # fs) ! ?j # take ?j (f # fs) @ drop (Suc ?j) (f # fs))"
    using 3 by (simp add: Let_def del: take_Cons' drop_Suc_Cons nth_Cons')
  also have "\<dots> = mset (f # fs)"
    using j by (rule mset_remove_nth)
  finally show ?case .
qed simp_all

lemma as_completed_in_order: "as_completed [] fs = fs"
  by (cases fs) simp_all

text \<open>Every order of the futures is the yield order of some world.\<close>

lemma as_completed_any_order:
  "mset ys = mset fs \<Longrightarrow> \<exists>sched. as_completed sched fs = ys"
proof (induction ys arbitrary: fs)
  case Nil
  then show ?case by simp
next
  case (Cons y ys)
  then have "y \<in> set fs"
    by (metis list.set_intros(1) set_mset_mset)
  then obtain j where j: "j < length fs" "fs ! j = y"
    by (auto simp: in_set_conv_nth)
  let ?rest = "take j fs @ drop (Suc j) fs"
  have "mset (y # ?rest) = mset fs"
    using j mset_remove_nth [of j fs] by simp
  then have "add_mset y (mset ?rest) = add_mset y (mset ys)"
    using Cons.prems by simp
  then have "mset ys = mset ?rest"
    by (simp only: add_mset_add_mset_same_iff)
  then obtain sched where s: "as_completed sched ?rest = ys"
    using Cons.IH by blast
  obtain f fs' where fs: "fs = f # fs'"
    using j by (cases fs) auto
  have "as_completed (j # sched) fs = y # ys"
    using j s unfolding fs by (simp add: Let_def del: take_Cons' drop_Suc_Cons nth_Cons')
  then show ?case by blast
qed

section \<open>What the collecting loops compute\<close>

lemma http_collect_eq: "http_collect futures results = results @ returned futures"
  by (induction futures results rule: http_collect.induct)
     (auto simp: returned_def split: sum.splits)

lemma ping_collect_eq: "ping_collect futures live = live @ positive futures"
  by (induction futures live rule: ping_collect.induct)
     (auto simp: positive_def split: sum.splits)

lemma scan_collect_eq: "scan_collect futures ports = ports @ positive futures"
  by (induction futures ports rule: scan_collect.induct)
     (auto simp: positive_def split: sum.splits)

lemma mset_returned:
  assumes "mset fs = mset gs"
  shows "mset (returned fs) = mset (returned gs)"
proof -
  have "mset (returned xs)
      = image_mset (\<lambda>f. projr (snd f)) (filter_mset (\<lambda>f. \<not> isl (snd f)) (mset xs))"
    for xs :: "('a \<times> (exn + 'b)) list"
    by (simp add: returned_def)
  then show ?thesis by (simp only: assms)
qed

lemma mset_positive:
  assumes "mset fs = mset gs"
  shows "mset (positive fs) = mset (positive gs)"
proof -
  have "mset (positive xs) = image_mset fst (filter_mset (\<lambda>f. snd f = Inr True) (mset xs))"
    for xs :: "('a \<times> (exn + bool)) list"
    by (simp add: positive_def)
  then show ?thesis by (simp only: assms)
qed

lemma enumerate_nth: "enumerate 0 xs = map (\<lambda>i. (i, xs ! i)) [0..<length xs]"
  by (rule nth_equalityI) (simp_all add: nth_enumerate_eq)

lemma http_futures_nth:
  "http_futures w urls timeout
     = map (\<lambda>i. (urls ! i, check_http_url w i (urls ! i) timeout)) [0..<length urls]"
  by (simp add: http_futures_def enumerate_nth)

lemma returned_http_futures:
  "returned (http_futures w urls timeout)
     = map (\<lambda>i. projr (check_http_url w i (urls ! i) timeout))
         (filter (\<lambda>i. \<not> isl (check_http_url w i (urls ! i) timeout)) [0..<length urls])"
  by (simp add: http_futures_nth returned_def filter_map comp_def)

lemma length_filter_compl:
  "length (filter P xs) + length (filter (\<lambda>x. \<not> P x) xs) = length xs"
  by (induction xs) auto

lemma check_http_url_fst: "check_http_url w i url timeout = Inr r \<Longrightarrow> fst r = url"
  by (auto simp: check_http_url_def split: get_outcome.splits exn.splits)

lemma map_fst_scan_futures: "map fst (scan_futures w ip ports timeout) = ports"
proof -
  have "map fst (scan_futures w ip ports timeout) = map snd (enumerate 0 ports)"
    by (simp add: scan_futures_def case_prod_unfold comp_def)
  then show ?thesis by simp
qed

lemma sorted_positive: "sorted (map fst fs) \<Longrightarrow> sorted (positive fs)"
  unfolding positive_def by (rule sorted_filter)

lemma ping_sweep_cidr_result:
  "ip_network w cidr = Inr net \<Longrightarrow> 0 < max_workers \<Longrightarrow>
     snd (ping_sweep_cidr w cidr t max_workers)
       = Inr (positive (as_completed (yield_order w)
                (ping_futures w (map (str_address w) (network_hosts net)) t)))"
  by (simp add: ping_sweep_cidr_def ping_collect_eq Let_def)

lemma ping_sweep_range_result:
  "endswith base ''.'' \<Longrightarrow> 0 < max_workers \<Longrightarrow>
     snd (ping_sweep_range w base start end t max_workers)
       = Inr (positive (as_completed (yield_order w)
                (ping_futures w (map (\<lambda>i. base @ str_int i) [start..end]) t)))"
  by (simp add: ping_sweep_range_def ping_collect_eq Let_def py_range_def)

lemma port_scan_result:
  "gethostbyname w host = Inr ip \<Longrightarrow> 0 < max_workers \<Longrightarrow>
     snd (port_scan w host ports timeout max_workers)
       = Inr (positive (as_completed (yield_order w) (scan_futures w ip ports timeout)))"
  by (simp add: port_scan_def scan_collect_eq)

lemma http_check_result:
  "0 < max_workers \<Longrightarrow>
     snd (http_check w urls timeout max_workers)
       = Inr (returned (as_completed (yield_order w) (http_futures w urls timeout)))"
  by (simp add: http_check_def http_collect_eq)

lemma filter_resolution_submits:
  "filter is_resolution (map (\<lambda>port. Submit_scan_port ip port timeout) ports) = []"
  by (induction ports) auto

text \<open>The futures do not depend on the order in which they are yielded.\<close>

lemma ping_host_update:
  "ping_host (w\<lparr>yield_order := c\<rparr>) i host t = ping_host w i host t"
  by (simp add: ping_host_def)

lemma scan_port_update:
  "scan_port (w\<lparr>yield_order := c\<rparr>) i host port timeout = scan_port w i host port timeout"
  by (simp add: scan_port_def split: option.splits connect_outcome.splits)

lemma check_http_url_update:
  "check_http_url (w\<lparr>yield_order := c\<rparr>) i url timeout = check_http_url w i url timeout"
  by (simp add: check_http_url_def split: get_outcome.splits exn.splits)

lemma ping_futures_update:
  "ping_futures (w\<lparr>yield_order := c\<rparr>) hosts t = ping_futures w hosts t"
  by (simp add: ping_futures_def ping_host_update)

lemma scan_futures_update:
  "scan_futures (w\<lparr>yield_order := c\<rparr>) ip ports timeout = scan_futures w ip ports timeout"
  by (simp add: scan_futures_def scan_port_update)

lemma http_futures_update:
  "http_futures (w\<lparr>yield_order := c\<rparr>) urls timeout = http_futures w urls timeout"
  by (simp add: http_futures_def check_http_url_update)

lemma str_address_update: "str_address (w\<lparr>yield_order := c\<rparr>) = str_address w"
proof
  fix h
  show "str_address (w\<lparr>yield_order := c\<rparr>) h = str_address w h"
    by (cases h) simp_all
qed

section \<open>The claims\<close>

text \<open>
  C1, as the code has it. For every URL list and a positive worker count,
  \<^verbatim>\<open>http_check\<close> returns one outcome for each task whose probe returned, and none for
  a task whose probe raised (an exception other than a \<^verbatim>\<open>RequestException\<close>; the
  loop logs it and appends nothing): the returned list is a rearrangement of the outcomes
  of the tasks that returned, its length and the number of raising tasks add up to the
  number of targets, and every outcome is the outcome of a task of the list and carries
  that task's URL. The result has one outcome per target exactly when no probe raises.
\<close>

theorem http_check_outcomes:
  assumes "0 < max_workers"
  shows "\<exists>results. snd (http_check w urls timeout max_workers) = Inr results
     \<and> mset results
         = mset (map (\<lambda>i. projr (check_http_url w i (urls ! i) timeout))
                  (filter (\<lambda>i. \<not> isl (check_http_url w i (urls ! i) timeout))
                     [0..<length urls]))
     \<and> length results
          + length (filter (\<lambda>i. isl (check_http_url w i (urls ! i) timeout)) [0..<length urls])
         = length urls
     \<and> (\<forall>r \<in> set results. \<exists>i < length urls.
           check_http_url w i (urls ! i) timeout = Inr r \<and> fst r = urls ! i)"
proof -
  let ?task = "\<lambda>i. check_http_url w i (urls ! i) timeout"
  let ?ok = "filter (\<lambda>i. \<not> isl (?task i)) [0..<length urls]"
  define results where
    "results = returned (as_completed (yield_order w) (http_futures w urls timeout))"
  have r: "snd (http_check w urls timeout max_workers) = Inr results"
    using assms by (simp add: http_check_result results_def)
  have "mset results = mset (returned (http_futures w urls timeout))"
    unfolding results_def by (rule mset_returned [OF mset_as_completed])
  then have m: "mset results = mset (map (\<lambda>i. projr (?task i)) ?ok)"
    by (simp only: returned_http_futures)
  have "length results = length (map (\<lambda>i. projr (?task i)) ?ok)"
    using m by (rule mset_eq_length)
  then have "length results = length ?ok"
    by (simp only: length_map)
  then have l: "length results + length (filter (\<lambda>i. isl (?task i)) [0..<length urls])
                  = length urls"
    using length_filter_compl [of "\<lambda>i. isl (?task i)" "[0..<length urls]"] by simp
  have "\<exists>i < length urls. ?task i = Inr x \<and> fst x = urls ! i" if "x \<in> set results" for x
  proof -
    from that have "x \<in> set (map (\<lambda>i. projr (?task i)) ?ok)"
      using mset_eq_setD [OF m] by simp
    then obtain i where i: "i < length urls" "\<not> isl (?task i)" "x = projr (?task i)"
      by auto
    then have "?task i = Inr x"
      by (cases "?task i") auto
    then show ?thesis
      using i check_http_url_fst by blast
  qed
  with r m l show ?thesis by blast
qed

theorem http_check_outcomes_witness:
  "(0 :: int) < 64
   \<and> length (projr (snd (http_check example_world [''http://a'', ''http://c'', ''http://d''] (Finite 5) 64)))
       + 1 = 3"
proof -
  let ?urls = "[''http://a'', ''http://c'', ''http://d'']"
  have h: "(0 :: int) < 64" by simp
  obtain results where
    r: "snd (http_check example_world ?urls (Finite 5) 64) = Inr results" and
    l: "length results
          + length (filter (\<lambda>i. isl (check_http_url example_world i (?urls ! i) (Finite 5)))
                      [0..<length ?urls])
        = length ?urls"
    using http_check_outcomes [OF h, of example_world ?urls "Finite 5"] by blast
  have "filter (\<lambda>i. isl (check_http_url example_world i (?urls ! i) (Finite 5))) [0..<length ?urls] = [2]"
    by (simp add: check_http_url_def example_world_def upt_rec)
  with r l h show ?thesis by simp
qed

text \<open>
  C1 as stated fails: of two targets, the one whose probe raises an exception that is not
  a transport error has no outcome in the result, which has one element.
\<close>

theorem http_check_drops_raising_probe:
  "snd (http_check example_world [''http://a'', ''http://d''] (Finite 5) 64)
     = Inr [(''http://a'', True, 200, [])]
   \<and> length [(''http://a'', True, 200, [])] \<noteq> length [''http://a'', ''http://d'']"
  by (simp add: http_check_def http_futures_def check_http_url_def example_world_def)

text \<open>
  C2, as the code has it. With a positive worker count (and a CIDR that parses, a prefix
  that ends in a dot, a host that resolves), the live-host list, the open-port list and
  the HTTP result list hold the same elements whatever order the futures come in: each is
  a rearrangement of the successful targets (of the returned results) taken in input
  order. Its order is the order in which \<^verbatim>\<open>as_completed\<close> yields the futures, which
  neither the inputs nor the verdicts fix, and nothing sorts the list afterwards; in the
  model every rearrangement of the futures is yielded in some world that differs in
  nothing but that order. The list is in input order when \<^verbatim>\<open>as_completed\<close> happens to
  yield the futures in submission order, and then the open ports of an ascending port list
  are ascending.
\<close>

theorem results_follow_yield_order:
  assumes "0 < max_workers"
  shows "(\<forall>net. ip_network w cidr = Inr net \<longrightarrow>
            (let fs = ping_futures w (map (str_address w) (network_hosts net)) t;
                 res = (\<lambda>c. snd (ping_sweep_cidr (w\<lparr>yield_order := c\<rparr>) cidr t max_workers))
             in (\<forall>c. res c = Inr (positive (as_completed c fs))
                      \<and> mset (positive (as_completed c fs)) = mset (positive fs))
                \<and> res [] = Inr (positive fs)
                \<and> (\<forall>ys. mset ys = mset fs \<longrightarrow> (\<exists>c. res c = Inr (positive ys)))))
       \<and> (endswith base ''.'' \<longrightarrow>
            (let fs = ping_futures w (map (\<lambda>i. base @ str_int i) [start..end]) t;
                 res = (\<lambda>c. snd (ping_sweep_range (w\<lparr>yield_order := c\<rparr>) base start end t
                                    max_workers))
             in (\<forall>c. res c = Inr (positive (as_completed c fs))
                      \<and> mset (positive (as_completed c fs)) = mset (positive fs))
                \<and> res [] = Inr (positive fs)
                \<and> (\<forall>ys. mset ys = mset fs \<longrightarrow> (\<exists>c. res c = Inr (positive ys)))))
       \<and> (\<forall>ip. gethostbyname w host = Inr ip \<longrightarrow>
            (let fs = scan_futures w ip ports timeout;
                 res = (\<lambda>c. snd (port_scan (w\<lparr>yield_order := c\<rparr>) host ports timeout
                                    max_workers))
             in (\<forall>c. res c = Inr (positive (as_completed c fs))
                      \<and> mset (positive (as_completed c fs)) = mset (positive fs))
                \<and> res [] = Inr (positive fs)
                \<and> (sorted ports \<longrightarrow> sorted (positive fs))
                \<and> (\<forall>ys. mset ys = mset fs \<longrightarrow> (\<exists>c. res c = Inr (positive ys)))))
       \<and> (let fs = http_futures w urls timeout;
               res = (\<lambda>c. snd (http_check (w\<lparr>yield_order := c\<rparr>) urls timeout max_workers))
           in (\<forall>c. res c = Inr (returned (as_completed c fs))
                    \<and> mset (returned (as_completed c fs)) = mset (returned fs))
              \<and> res [] = Inr (returned fs)
              \<and> (\<forall>ys. mset ys = mset fs \<longrightarrow> (\<exists>c. res c = Inr (returned ys))))"
proof -
  have p1: "\<forall>net. ip_network w cidr = Inr net \<longrightarrow>
            (let fs = ping_futures w (map (str_address w) (network_hosts net)) t;
                 res = (\<lambda>c. snd (ping_sweep_cidr (w\<lparr>yield_order := c\<rparr>) cidr t max_workers))
             in (\<forall>c. res c = Inr (positive (as_completed c fs))
                      \<and> mset (positive (as_completed c fs)) = mset (positive fs))
                \<and> res [] = Inr (positive fs)
                \<and> (\<forall>ys. mset ys = mset fs \<longrightarrow> (\<exists>c. res c = Inr (positive ys))))"
  proof (intro allI impI)
    fix net
    assume n: "ip_network w cidr = Inr net"
    let ?fs = "ping_futures w (map (str_address w) (network_hosts net)) t"
    have r: "snd (ping_sweep_cidr (w\<lparr>yield_order := c\<rparr>) cidr t max_workers)
               = Inr (positive (as_completed c ?fs))" for c
      using ping_sweep_cidr_result [of "w\<lparr>yield_order := c\<rparr>" cidr net max_workers t] n assms
      by (simp add: ping_futures_update str_address_update)
    have "\<exists>c. snd (ping_sweep_cidr (w\<lparr>yield_order := c\<rparr>) cidr t max_workers)
               = Inr (positive ys)" if "mset ys = mset ?fs" for ys
    proof -
      from as_completed_any_order [OF that] obtain c where "as_completed c ?fs = ys"
        by blast
      then have "snd (ping_sweep_cidr (w\<lparr>yield_order := c\<rparr>) cidr t max_workers)
               = Inr (positive ys)"
        using r [of c] by simp
      then show ?thesis
        by blast
    qed
    then show "let fs = ?fs;
                 res = (\<lambda>c. snd (ping_sweep_cidr (w\<lparr>yield_order := c\<rparr>) cidr t max_workers))
             in (\<forall>c. res c = Inr (positive (as_completed c fs))
                      \<and> mset (positive (as_completed c fs)) = mset (positive fs))
                \<and> res [] = Inr (positive fs)
                \<and> (\<forall>ys. mset ys = mset fs \<longrightarrow> (\<exists>c. res c = Inr (positive ys)))"
      using r by (simp add: Let_def mset_positive [OF mset_as_completed] as_completed_in_order)
  qed
  have p2: "endswith base ''.'' \<longrightarrow>
            (let fs = ping_futures w (map (\<lambda>i. base @ str_int i) [start..end]) t;
                 res = (\<lambda>c. snd (ping_sweep_range (w\<lparr>yield_order := c\<rparr>) base start end t
                                    max_workers))
             in (\<forall>c. res c = Inr (positive (as_completed c fs))
                      \<and> mset (positive (as_completed c fs)) = mset (positive fs))
                \<and> res [] = Inr (positive fs)
                \<and> (\<forall>ys. mset ys = mset fs \<longrightarrow> (\<exists>c. res c = Inr (positive ys))))"
  proof
    assume d: "endswith base ''.''"
    let ?fs = "ping_futures w (map (\<lambda>i. base @ str_int i) [start..end]) t"
    have r: "snd (ping_sweep_range (w\<lparr>yield_order := c\<rparr>) base start end t max_workers)
               = Inr (positive (as_completed c ?fs))" for c
      using ping_sweep_range_result [of base max_workers "w\<lparr>yield_order := c\<rparr>" start "end" t]
            d assms
      by (simp add: ping_futures_update)
    have "\<exists>c. snd (ping_sweep_range (w\<lparr>yield_order := c\<rparr>) base start end t max_workers)
               = Inr (positive ys)" if "mset ys = mset ?fs" for ys
    proof -
      from as_completed_any_order [OF that] obtain c where "as_completed c ?fs = ys"
        by blast
      then have "snd (ping_sweep_range (w\<lparr>yield_order := c\<rparr>) base start end t max_workers)
               = Inr (positive ys)"
        using r [of c] by simp
      then show ?thesis
        by blast
    qed
    then show "let fs = ?fs;
                 res = (\<lambda>c. snd (ping_sweep_range (w\<lparr>yield_order := c\<rparr>) base start end t
                                    max_workers))
             in (\<forall>c. res c = Inr (positive (as_completed c fs))
                      \<and> mset (positive (as_completed c fs)) = mset (positive fs))
                \<and> res [] = Inr (positive fs)
                \<and> (\<forall>ys. mset ys = mset fs \<longrightarrow> (\<exists>c. res c = Inr (positive ys)))"
      using r by (simp add: Let_def mset_positive [OF mset_as_completed] as_completed_in_order)
  qed
  have p3: "\<forall>ip. gethostbyname w host = Inr ip \<longrightarrow>
            (let fs = scan_futures w ip ports timeout;
                 res = (\<lambda>c. snd (port_scan (w\<lparr>yield_order := c\<rparr>) host ports timeout
                                    max_workers))
             in (\<forall>c. res c = Inr (positive (as_completed c fs))
                      \<and> mset (positive (as_completed c fs)) = mset (positive fs))
                \<and> res [] = Inr (positive fs)
                \<and> (sorted ports \<longrightarrow> sorted (positive fs))
                \<and> (\<forall>ys. mset ys = mset fs \<longrightarrow> (\<exists>c. res c = Inr (positive ys))))"
  proof (intro allI impI)
    fix ip
    assume g: "gethostbyname w host = Inr ip"
    let ?fs = "scan_futures w ip ports timeout"
    have r: "snd (port_scan (w\<lparr>yield_order := c\<rparr>) host ports timeout max_workers)
               = Inr (positive (as_completed c ?fs))" for c
      using port_scan_result [of "w\<lparr>yield_order := c\<rparr>" host ip max_workers ports timeout]
            g assms
      by (simp add: scan_futures_update)
    have "\<exists>c. snd (port_scan (w\<lparr>yield_order := c\<rparr>) host ports timeout max_workers)
               = Inr (positive ys)" if "mset ys = mset ?fs" for ys
    proof -
      from as_completed_any_order [OF that] obtain c where "as_completed c ?fs = ys"
        by blast
      then have "snd (port_scan (w\<lparr>yield_order := c\<rparr>) host ports timeout max_workers)
               = Inr (positive ys)"
        using r [of c] by simp
      then show ?thesis
        by blast
    qed
    then show "let fs = ?fs;
                 res = (\<lambda>c. snd (port_scan (w\<lparr>yield_order := c\<rparr>) host ports timeout
                                    max_workers))
             in (\<forall>c. res c = Inr (positive (as_completed c fs))
                      \<and> mset (positive (as_completed c fs)) = mset (positive fs))
                \<and> res [] = Inr (positive fs)
                \<and> (sorted ports \<longrightarrow> sorted (positive fs))
                \<and> (\<forall>ys. mset ys = mset fs \<longrightarrow> (\<exists>c. res c = Inr (positive ys)))"
      using r
      by (simp add: Let_def mset_positive [OF mset_as_completed] as_completed_in_order
            sorted_positive map_fst_scan_futures)
  qed
  have p4: "let fs = http_futures w urls timeout;
               res = (\<lambda>c. snd (http_check (w\<lparr>yield_order := c\<rparr>) urls timeout max_workers))
           in (\<forall>c. res c = Inr (returned (as_completed c fs))
                    \<and> mset (returned (as_completed c fs)) = mset (returned fs))
              \<and> res [] = Inr (returned fs)
              \<and> (\<forall>ys. mset ys = mset fs \<longrightarrow> (\<exists>c. res c = Inr (returned ys)))"
  proof -
    let ?fs = "http_futures w urls timeout"
    have r: "snd (http_check (w\<lparr>yield_order := c\<rparr>) urls timeout max_workers)
               = Inr (returned (as_completed c ?fs))" for c
      using http_check_result [of max_workers "w\<lparr>yield_order := c\<rparr>" urls timeout] assms
      by (simp add: http_futures_update)
    have "\<exists>c. snd (http_check (w\<lparr>yield_order := c\<rparr>) urls timeout max_workers)
               = Inr (returned ys)" if "mset ys = mset ?fs" for ys
    proof -
      from as_completed_any_order [OF that] obtain c where "as_completed c ?fs = ys"
        by blast
      then have "snd (http_check (w\<lparr>yield_order := c\<rparr>) urls timeout max_workers)
               = Inr (returned ys)"
        using r [of c] by simp
      then show ?thesis
        by blast
    qed
    then show ?thesis
      using r by (simp add: Let_def mset_returned [OF mset_as_completed] as_completed_in_order)
  qed
  from p1 p2 p3 p4 show ?thesis
    by (intro conjI)
qed

theorem results_follow_yield_order_witness:
  "(0 :: int) < 64
   \<and> gethostbyname example_world ''localhost'' = Inr ''127.0.0.1''
   \<and> sorted [22, 80, 443 :: int]
   \<and> snd (port_scan (example_world\<lparr>yield_order := []\<rparr>) ''localhost'' [22, 80, 443]
            (Finite 1) 64)
       = Inr [22, 80]
   \<and> sorted [22, 80 :: int]
   \<and> mset [80, 22 :: int] = mset [22, 80]"
proof -
  let ?fs = "scan_futures example_world ''127.0.0.1'' [22, 80, 443] (Finite 1)"
  have h: "(0 :: int) < 64" by simp
  have g: "gethostbyname example_world ''localhost'' = Inr ''127.0.0.1''"
    by (simp add: example_world_def)
  have o: "sorted [22, 80, 443 :: int]" by simp
  have p: "positive ?fs = [22, 80]"
    by (simp add: positive_def scan_futures_def scan_port_def example_world_def)
  have "snd (port_scan (example_world\<lparr>yield_order := []\<rparr>) ''localhost'' [22, 80, 443]
               (Finite 1) 64)
          = Inr (positive ?fs)
        \<and> sorted (positive ?fs)"
    using results_follow_yield_order
            [OF h, of example_world "[]" 0 "[]" 0 0 "''localhost''" "[22, 80, 443]" "Finite 1" "[]"]
          g o
    unfolding Let_def by blast
  then show ?thesis
    using h g o by (simp add: p)
qed

text \<open>
  C2 as stated fails: with two open ports of which the second is yielded first, the
  open-port list is 80, 22; and two runs over the same URLs with the same verdicts,
  differing only in the order in which \<^verbatim>\<open>as_completed\<close> yields the futures, return the
  results in different orders.
\<close>

theorem results_depend_on_yield_order:
  "snd (port_scan example_world ''localhost'' [22, 80] (Finite 1) 64) = Inr [80, 22]
   \<and> \<not> sorted [80, 22 :: int]
   \<and> snd (http_check example_world [''http://a'', ''http://b''] (Finite 5) 64)
       = Inr [(''http://b'', False, 404, []), (''http://a'', True, 200, [])]
   \<and> snd (http_check (example_world\<lparr>yield_order := []\<rparr>) [''http://a'', ''http://b'']
            (Finite 5) 64)
       = Inr [(''http://a'', True, 200, []), (''http://b'', False, 404, [])]"
  by (simp add: port_scan_def scan_futures_def scan_port_def http_check_def http_futures_def
        check_http_url_def example_world_def)

text \<open>
  C3, as the code has it. For every prefix that ends in a dot, a positive worker count
  and all integers \<open>start\<close> and \<open>end\<close>, the range sweep returns normally and submits one
  probe for each host string \<open>prefix + str(i)\<close>, \<open>i\<close> running upwards from \<open>start\<close> to
  \<open>end\<close>: for \<open>start \<le> end\<close> these are \<open>end - start + 1\<close> hosts, the one at position
  \<open>k\<close> having the suffix \<open>start + k\<close>; for \<open>start > end\<close> no host is enumerated, the result
  is the empty list, nothing fails and the endpoints are not swapped.
\<close>

theorem ping_sweep_range_enumerates:
  assumes "endswith base_network ''.''" and "0 < max_workers"
  shows "fst (ping_sweep_range w base_network start end timeout max_workers)
           = map (\<lambda>i. Submit_ping_host (base_network @ str_int i) timeout) [start..end]
       \<and> \<not> isl (snd (ping_sweep_range w base_network start end timeout max_workers))
       \<and> (start \<le> end \<longrightarrow>
            length (fst (ping_sweep_range w base_network start end timeout max_workers))
              = nat (end - start + 1)
            \<and> (\<forall>k < nat (end - start + 1).
                  fst (ping_sweep_range w base_network start end timeout max_workers) ! k
                    = Submit_ping_host (base_network @ str_int (start + int k)) timeout))
       \<and> (end < start \<longrightarrow>
            ping_sweep_range w base_network start end timeout max_workers = ([], Inr []))"
  using assms
  by (simp add: ping_sweep_range_def py_range_def Let_def ping_futures_def nth_upto)

theorem ping_sweep_range_enumerates_witness:
  "endswith ''10.0.0.'' ''.'' \<and> (0 :: int) < 64 \<and> (1 :: int) \<le> 3
   \<and> fst (ping_sweep_range example_world ''10.0.0.'' 1 3 1 64)
       = [Submit_ping_host ''10.0.0.1'' 1, Submit_ping_host ''10.0.0.2'' 1,
          Submit_ping_host ''10.0.0.3'' 1]
   \<and> length (fst (ping_sweep_range example_world ''10.0.0.'' 1 3 1 64)) = 3
   \<and> (5 :: int) > 1
   \<and> ping_sweep_range example_world ''10.0.0.'' 5 1 1 64 = ([], Inr [])"
proof -
  have d: "endswith ''10.0.0.'' ''.''" by (simp add: endswith_def)
  have h: "(0 :: int) < 64" by simp
  have u: "[1..3] = [1, 2, 3 :: int]" by (simp add: upto.simps)
  have s: "str_int 1 = ''1''" "str_int 2 = ''2''" "str_int 3 = ''3''"
    by (simp_all add: str_int_def str_nat.simps digit_char_simps)
  show ?thesis
    using ping_sweep_range_enumerates [OF d h, of example_world 1 3 1]
          ping_sweep_range_enumerates [OF d h, of example_world 5 1 1] d
    by (simp add: u s)
qed

text \<open>
  C3 as stated fails: with \<open>start = 5\<close> and \<open>end = 1\<close> the sweep does not fail; it returns
  the empty list, and the invocation ends with the return code of a success.
\<close>

theorem ping_sweep_range_reversed_returns:
  "ping_sweep_range example_world ''10.0.0.'' 5 1 1 64 = ([], Inr [])
   \<and> \<not> isl (snd (ping_sweep_range example_world ''10.0.0.'' 5 1 1 64))
   \<and> main example_world (Ping_sweep None (Some ''10.0.0.'') (Some 5) (Some 1) 1 64) = ([], [], 0)"
  by (simp add: ping_sweep_range_def endswith_def py_range_def Let_def ping_futures_def
        main_def main_network_def)

text \<open>
  C4, as the code has it. For every string that \<^verbatim>\<open>ip_network\<close> cannot parse (it raises
  \<^verbatim>\<open>ValueError\<close>), \<^verbatim>\<open>ping_sweep_cidr\<close> submits no probe and returns the empty list of
  live hosts: the sweep ends before any probing, as a normal return and not as a failure.
  \<^verbatim>\<open>main\<close> calls \<^verbatim>\<open>ping_sweep_cidr\<close> for every \<^verbatim>\<open>--cidr\<close> value but the empty string;
  it then prints nothing and returns the code 0. The empty string it takes for an absent
  option: no sweep is called and, \<^verbatim>\<open>--network\<close> being excluded by \<^verbatim>\<open>--cidr\<close>, it
  returns the code 1.
\<close>

theorem ping_sweep_cidr_unparsable:
  assumes "ip_network w cidr = Inl ValueError"
  shows "ping_sweep_cidr w cidr timeout max_workers = ([], Inr [])
       \<and> (cidr \<noteq> [] \<longrightarrow>
            main w (Ping_sweep (Some cidr) network start end timeout max_workers) = ([], [], 0))
       \<and> (cidr = [] \<longrightarrow>
            main w (Ping_sweep (Some cidr) None start end timeout max_workers) = ([], [], 1))"
  using assms
  by (auto simp: ping_sweep_cidr_def main_def main_network_def split: option.splits)

theorem ping_sweep_cidr_unparsable_witness:
  "ip_network example_world ''10.0.0.0/33'' = Inl ValueError
   \<and> ping_sweep_cidr example_world ''10.0.0.0/33'' 1 64 = ([], Inr [])
   \<and> main example_world (Ping_sweep (Some ''10.0.0.0/33'') None None None 1 64) = ([], [], 0)
   \<and> ip_network example_world [] = Inl ValueError
   \<and> ping_sweep_cidr example_world [] 1 64 = ([], Inr [])
   \<and> main example_world (Ping_sweep (Some []) None None None 1 64) = ([], [], 1)"
proof -
  have h: "ip_network example_world ''10.0.0.0/33'' = Inl ValueError"
    by (simp add: example_world_def)
  have e: "ip_network example_world [] = Inl ValueError"
    by (simp add: example_world_def)
  show ?thesis
    using h e ping_sweep_cidr_unparsable [OF h, of 1 64 None None None]
      ping_sweep_cidr_unparsable [OF e, of 1 64 None None None]
    by simp
qed

text \<open>
  C4 as stated fails: on a string that cannot be parsed the sweep does not fail, its
  result is a value, and the invocation ends with the return code of a success.
\<close>

theorem ping_sweep_cidr_unparsable_returns:
  "ip_network example_world ''10.0.0.0/33'' = Inl ValueError
   \<and> \<not> isl (snd (ping_sweep_cidr example_world ''10.0.0.0/33'' 1 64))
   \<and> main example_world (Ping_sweep (Some ''10.0.0.0/33'') None None None 1 64) = ([], [], 0)"
  by (simp add: ping_sweep_cidr_def main_def example_world_def)

text \<open>
  C7, as the code has it. Every port scan resolves the host name exactly once, whatever
  the number of ports; when the resolution fails (\<^verbatim>\<open>socket.gaierror\<close>) the scan submits
  no port probe and returns the empty list of open ports, a normal return that reports
  no error to the caller, and \<^verbatim>\<open>main\<close> prints nothing and returns the code 0.
\<close>

theorem port_scan_resolves_once:
  "filter is_resolution (fst (port_scan w host ports timeout max_workers)) = [Gethostbyname host]
   \<and> (\<forall>msg. gethostbyname w host = Inl (Gaierror msg) \<longrightarrow>
         port_scan w host ports timeout max_workers = ([Gethostbyname host], Inr [])
         \<and> (\<forall>ports_str. parse_ports ports_str = Inr ports \<and> ports \<noteq> [] \<longrightarrow>
               main w (Port_scan host ports_str timeout max_workers)
                 = ([Gethostbyname host], [], 0)))"
  by (auto simp: port_scan_def main_def filter_resolution_submits split: sum.splits exn.splits)

theorem port_scan_resolves_once_witness:
  "gethostbyname example_world ''nohost'' = Inl (Gaierror ''Name or service not known'')
   \<and> port_scan example_world ''nohost'' [22, 80] (Finite 1) 64 = ([Gethostbyname ''nohost''], Inr [])
   \<and> parse_ports ''22,80'' = Inr [22, 80]
   \<and> main example_world (Port_scan ''nohost'' ''22,80'' (Finite 1) 64) = ([Gethostbyname ''nohost''], [], 0)
   \<and> filter is_resolution (fst (port_scan example_world ''localhost'' [22, 80, 443] (Finite 1) 64))
       = [Gethostbyname ''localhost'']"
proof -
  have h: "gethostbyname example_world ''nohost'' = Inl (Gaierror ''Name or service not known'')"
    by (simp add: example_world_def)
  have p: "parse_ports ''22,80'' = Inr [22, 80]"
    by code_simp
  show ?thesis
    using h p port_scan_resolves_once [of example_world "''nohost''" "[22, 80]" "Finite 1" 64]
          port_scan_resolves_once [of example_world "''localhost''" "[22, 80, 443]" "Finite 1" 64]
    by simp
qed

text \<open>
  C7 as stated fails: when the name does not resolve the scan does not fail with an
  error; its result is a value, the empty list, and the invocation ends with the return
  code of a success.
\<close>

theorem port_scan_unresolved_returns:
  "gethostbyname example_world ''nohost'' = Inl (Gaierror ''Name or service not known'')
   \<and> \<not> isl (snd (port_scan example_world ''nohost'' [22, 80] (Finite 1) 64))
   \<and> main example_world (Port_scan ''nohost'' ''22,80'' (Finite 1) 64) = ([Gethostbyname ''nohost''], [], 0)"
proof -
  have p: "parse_ports ''22,80'' = Inr [22, 80]"
    by code_simp
  show ?thesis
    by (simp add: port_scan_def main_def p example_world_def)
qed



text \<open>
  C9, as the code has it. For every host, port, timeout and task: when
  \<^verbatim>\<open>socket.socket\<close> creates the socket and \<^verbatim>\<open>settimeout\<close> accepts the timeout,
  \<^verbatim>\<open>scan_port\<close> returns a boolean and raises nothing, \<^verbatim>\<open>True\<close> exactly when
  \<^verbatim>\<open>connect_ex\<close> returns the code 0 and \<^verbatim>\<open>False\<close> for every other code and for every
  exception \<^verbatim>\<open>connect_ex\<close> raises. An exception raised by \<^verbatim>\<open>socket.socket\<close> or by
  \<^verbatim>\<open>settimeout\<close> is raised before the \<^verbatim>\<open>try\<close> and reaches the caller.
\<close>

theorem scan_port_boundary:
  "(socket_socket w i = None \<and> settimeout w timeout = None \<longrightarrow>
      scan_port w i host port timeout = Inr (connect_ex w i (host, port) = Errno 0))
   \<and> (\<forall>e. socket_socket w i = Some e \<longrightarrow> scan_port w i host port timeout = Inl e)
   \<and> (\<forall>e. socket_socket w i = None \<and> settimeout w timeout = Some e \<longrightarrow>
         scan_port w i host port timeout = Inl e)"
  by (auto simp: scan_port_def split: option.splits connect_outcome.splits)

lemma settimeout_examples:
  "settimeout example_world (Finite 1) = None"
  "settimeout example_world (Finite (- 1)) = Some ValueError"
  "settimeout example_world (Finite 10000000000) = Some OverflowError"
  "settimeout example_world PosInf = Some OverflowError"
  "settimeout example_world NaN = Some ValueError"
  by (simp_all add: example_world_def)

theorem scan_port_boundary_witness:
  "socket_socket example_world 0 = None \<and> settimeout example_world (Finite 1) = None
   \<and> connect_ex example_world 0 (''127.0.0.1'', 22) = Errno 0
   \<and> scan_port example_world 0 ''127.0.0.1'' 22 (Finite 1) = Inr True
   \<and> connect_ex example_world 1 (''127.0.0.1'', 443) = Errno 111
   \<and> scan_port example_world 1 ''127.0.0.1'' 443 (Finite 1) = Inr False
   \<and> settimeout example_world (Finite (- 1)) = Some ValueError
   \<and> scan_port example_world 0 ''127.0.0.1'' 22 (Finite (- 1)) = Inl ValueError
   \<and> settimeout example_world (Finite 10000000000) = Some OverflowError
   \<and> scan_port example_world 0 ''127.0.0.1'' 22 (Finite 10000000000) = Inl OverflowError
   \<and> settimeout example_world NaN = Some ValueError
   \<and> scan_port example_world 0 ''127.0.0.1'' 22 NaN = Inl ValueError"
proof -
  have s: "socket_socket example_world 0 = None" "socket_socket example_world 1 = None"
    by (simp_all add: example_world_def)
  have c: "connect_ex example_world 0 (''127.0.0.1'', 22) = Errno 0"
          "connect_ex example_world 1 (''127.0.0.1'', 443) = Errno 111"
    by (simp_all add: example_world_def)
  show ?thesis
    using scan_port_boundary [of example_world 0 "Finite 1" "''127.0.0.1''" 22]
          scan_port_boundary [of example_world 1 "Finite 1" "''127.0.0.1''" 443]
          scan_port_boundary [of example_world 0 "Finite (- 1)" "''127.0.0.1''" 22]
          scan_port_boundary [of example_world 0 "Finite 10000000000" "''127.0.0.1''" 22]
          scan_port_boundary [of example_world 0 NaN "''127.0.0.1''" 22]
          s c settimeout_examples
    by simp
qed

text \<open>
  C9 as stated fails: with the timeout \<open>-1\<close> the probe returns no boolean; the
  \<^verbatim>\<open>ValueError\<close> of \<^verbatim>\<open>settimeout\<close> reaches the caller. So does its
  \<^verbatim>\<open>OverflowError\<close> for a timeout of \<open>10 ^ 10\<close> seconds.
\<close>

theorem scan_port_negative_timeout_raises:
  "scan_port example_world 0 ''127.0.0.1'' 22 (Finite (- 1)) = Inl ValueError
   \<and> scan_port example_world 0 ''127.0.0.1'' 22 (Finite 10000000000) = Inl OverflowError"
  by (simp add: scan_port_def example_world_def)

section \<open>The hosts of a network\<close>

lemma broadcast_plus:
  assumes "valid_network net"
  shows "broadcast_address net = network_address net + hostmask net"
proof -
  have "network_address net AND hostmask net = 0"
    using assms by (simp add: valid_network_def)
  then have "network_address net + hostmask net = network_address net OR hostmask net"
    by (rule disjunctive_add_eq_or)
  then show ?thesis
    by (simp only: broadcast_address_def)
qed

lemma hostmask_point: "prefixlen net = max_prefixlen net - 1 \<Longrightarrow> hostmask net = 1"
  by (cases net) (simp_all add: hostmask_def)

lemma hostmask_wide:
  assumes "prefixlen net + 2 \<le> max_prefixlen net"
  shows "3 \<le> hostmask net"
proof -
  have "2 \<le> max_prefixlen net - prefixlen net"
    using assms by simp
  then have "(2::nat) ^ 2 \<le> 2 ^ (max_prefixlen net - prefixlen net)"
    by (rule power_increasing) simp
  then show ?thesis
    by (simp add: hostmask_def)
qed

lemma upt_two: "[n..<n + 1 + 1] = [n, n + 1]"
proof -
  have "[n..<Suc (Suc n)] = [n, Suc n]"
    by (simp add: upt_rec [of n] upt_rec [of "Suc n"])
  then show ?thesis by simp
qed

text \<open>The three shapes of the host list.\<close>

lemma hosts_single:
  assumes "prefixlen net = max_prefixlen net"
  shows "map address_int (network_hosts net) = [network_address net]"
  using assms by (cases net) (simp_all add: network_hosts_def)

lemma hosts_point_to_point:
  assumes "valid_network net" and "prefixlen net = max_prefixlen net - 1"
  shows "map address_int (network_hosts net) = [network_address net, network_address net + 1]"
    and "broadcast_address net = network_address net + 1"
proof -
  show b: "broadcast_address net = network_address net + 1"
    by (simp only: broadcast_plus [OF assms(1)] hostmask_point [OF assms(2)])
  have "map address_int (network_hosts net) = [network_address net..<broadcast_address net + 1]"
    using assms(2) by (cases net) (simp_all add: network_hosts_def Let_def comp_def del: upt_Suc)
  also have "\<dots> = [network_address net..<network_address net + 1 + 1]"
    by (simp only: b)
  also have "\<dots> = [network_address net, network_address net + 1]"
    by (rule upt_two)
  finally show "map address_int (network_hosts net) = [network_address net, network_address net + 1]" .
qed

lemma hosts_wide_v4:
  assumes "p + 2 \<le> 32"
  shows "map address_int (network_hosts (IPv4Network a p))
           = [a + 1..<broadcast_address (IPv4Network a p)]"
  using assms by (simp add: network_hosts_def Let_def comp_def del: upt_Suc)

lemma hosts_wide_v6:
  assumes "p + 2 \<le> 128"
  shows "map address_int (network_hosts (IPv6Network a p))
           = [a + 1..<broadcast_address (IPv6Network a p) + 1]"
  using assms by (simp add: network_hosts_def Let_def comp_def del: upt_Suc)

lemma prefix_cases:
  assumes "valid_network net"
  obtains (single) "prefixlen net = max_prefixlen net"
    | (point) "prefixlen net = max_prefixlen net - 1" "prefixlen net \<noteq> max_prefixlen net"
    | (wide4) a p where "net = IPv4Network a p" "p + 2 \<le> 32"
    | (wide6) a p where "net = IPv6Network a p" "p + 2 \<le> 128"
proof (cases net)
  case (IPv4Network a p)
  then have "p \<le> 32" using assms by (simp add: valid_network_def)
  then consider "p = 32" | "p = 31" | "p + 2 \<le> 32" by linarith
  then show ?thesis using IPv4Network single point wide4 by cases simp_all
next
  case (IPv6Network a p)
  then have "p \<le> 128" using assms by (simp add: valid_network_def)
  then consider "p = 128" | "p = 127" | "p + 2 \<le> 128" by linarith
  then show ?thesis using IPv6Network single point wide6 by cases simp_all
qed

lemma sorted_wrt_upt_less: "sorted_wrt (<) [i..<j]"
  by (simp add: sorted_wrt_iff_nth_less)

lemma hosts_strictly_ascending: "sorted_wrt (<) (map address_int (network_hosts net))"
  by (cases net)
     (simp_all add: network_hosts_def Let_def comp_def sorted_wrt_upt_less del: upt_Suc)

lemma length_from_ints:
  "map address_int hs = xs \<Longrightarrow> length hs = length xs"
  by (metis length_map)

lemma hosts_count:
  assumes "valid_network net"
  shows "length (network_hosts net) =
           (if prefixlen net = max_prefixlen net then 1
            else if prefixlen net = max_prefixlen net - 1 then 2
            else (case net of
                    IPv4Network a p \<Rightarrow> 2 ^ (32 - p) - 2
                  | IPv6Network a p \<Rightarrow> 2 ^ (128 - p) - 1))"
  using assms
proof (cases rule: prefix_cases)
  case single
  then show ?thesis
    using length_from_ints [OF hosts_single [OF single]] by simp
next
  case point
  then show ?thesis
    using length_from_ints [OF hosts_point_to_point(1) [OF assms point(1)]] by simp
next
  case (wide4 a p)
  have "broadcast_address net = a + (2 ^ (32 - p) - 1)"
    using broadcast_plus [OF assms] wide4 by (simp add: hostmask_def)
  then have "length (network_hosts net) = 2 ^ (32 - p) - 2"
    using length_from_ints [OF hosts_wide_v4 [OF wide4(2), of a]] wide4(1) by simp
  then show ?thesis
    using wide4 by simp
next
  case (wide6 a p)
  have "broadcast_address net = a + (2 ^ (128 - p) - 1)"
    using broadcast_plus [OF assms] wide6 by (simp add: hostmask_def)
  moreover have "(1::nat) \<le> 2 ^ (128 - p)"
    by simp
  ultimately have "length (network_hosts net) = 2 ^ (128 - p) - 1"
    using length_from_ints [OF hosts_wide_v6 [OF wide6(2), of a]] wide6(1) by simp
  then show ?thesis
    using wide6 by simp
qed

lemma hosts_inside:
  assumes "valid_network net" and "h \<in> set (network_hosts net)"
  shows "network_address net \<le> address_int h \<and> address_int h \<le> broadcast_address net"
proof -
  have m: "address_int h \<in> set (map address_int (network_hosts net))"
    using assms(2) by simp
  from assms(1) show ?thesis
  proof (cases rule: prefix_cases)
    case single
    then show ?thesis
      using m broadcast_plus [OF assms(1)] unfolding hosts_single [OF single] by simp
  next
    case point
    then show ?thesis
      using m hosts_point_to_point(2) [OF assms(1) point(1)]
      unfolding hosts_point_to_point(1) [OF assms(1) point(1)] by auto
  next
    case (wide4 a p)
    then show ?thesis
      using m unfolding wide4(1) hosts_wide_v4 [OF wide4(2)] by simp
  next
    case (wide6 a p)
    then show ?thesis
      using m unfolding wide6(1) hosts_wide_v6 [OF wide6(2)] by (auto simp del: upt_Suc)
  qed
qed

lemma hosts_exclude_network:
  assumes "valid_network net" "prefixlen net + 2 \<le> max_prefixlen net"
    and "h \<in> set (network_hosts net)"
  shows "address_int h \<noteq> network_address net"
proof -
  have m: "address_int h \<in> set (map address_int (network_hosts net))"
    using assms(3) by simp
  from assms(1) show ?thesis
  proof (cases rule: prefix_cases)
    case single
    then show ?thesis using assms(2) by simp
  next
    case point
    then show ?thesis using assms(2) by simp
  next
    case (wide4 a p)
    then show ?thesis
      using m unfolding wide4(1) hosts_wide_v4 [OF wide4(2)] by simp
  next
    case (wide6 a p)
    then show ?thesis
      using m unfolding wide6(1) hosts_wide_v6 [OF wide6(2)] by (auto simp del: upt_Suc)
  qed
qed

lemma hosts_exclude_broadcast_v4:
  assumes "p + 2 \<le> 32" and "h \<in> set (network_hosts (IPv4Network a p))"
  shows "address_int h \<noteq> broadcast_address (IPv4Network a p)"
proof -
  have "address_int h \<in> set (map address_int (network_hosts (IPv4Network a p)))"
    using assms(2) by simp
  then show ?thesis
    unfolding hosts_wide_v4 [OF assms(1)] by simp
qed

section \<open>Dotted quads are distinct for distinct addresses\<close>

lemma str_nat_inj: "str_nat m = str_nat n \<Longrightarrow> m = n"
proof -
  assume "str_nat m = str_nat n"
  then have "digits_value (str_nat m) = digits_value (str_nat n)"
    by simp
  then show ?thesis
    by (simp only: digits_value_str_nat of_nat_eq_iff)
qed

lemma no_dot_str_nat: "CHR ''.'' \<notin> set (str_nat n)"
  by (auto dest: str_nat_digits is_digit_not_special)

lemma split_on_str_ipv4:
  "split_on (CHR ''.'') (str_ipv4 a)
     = [str_nat (a div 16777216 mod 256), str_nat (a div 65536 mod 256),
        str_nat (a div 256 mod 256), str_nat (a mod 256)]"
  by (simp add: str_ipv4_def split_on_append split_on_absent [OF no_dot_str_nat])

lemma base256:
  fixes x y :: nat
  assumes "x mod 256 = y mod 256" and "x div 256 = y div 256"
  shows "x = y"
proof -
  have "x = 256 * (x div 256) + x mod 256" by simp
  also have "\<dots> = 256 * (y div 256) + y mod 256" by (simp only: assms)
  also have "\<dots> = y" by simp
  finally show ?thesis .
qed

lemma div_65536: "x div 65536 = x div 256 div 256" for x :: nat
proof -
  have "x div (256 * 256) = x div 256 div 256"
    by (rule div_mult2_eq)
  then show ?thesis by simp
qed

lemma div_16777216: "x div 16777216 = x div 256 div 256 div 256" for x :: nat
proof -
  have "x div (65536 * 256) = x div 65536 div 256"
    by (rule div_mult2_eq)
  then show ?thesis by (simp add: div_65536)
qed

lemma top_octet: "x div 256 div 256 div 256 < 256" if "x < 2 ^ 32" for x :: nat
proof -
  have "x < 256 * 16777216" using that by simp
  then have "x div 16777216 < 256" by (rule less_mult_imp_div_less)
  then show ?thesis by (simp only: div_16777216)
qed

lemma octets_eq:
  assumes "str_ipv4 a = str_ipv4 b"
  shows "a div 256 div 256 div 256 mod 256 = b div 256 div 256 div 256 mod 256"
    and "a div 256 div 256 mod 256 = b div 256 div 256 mod 256"
    and "a div 256 mod 256 = b div 256 mod 256"
    and "a mod 256 = b mod 256"
proof -
  have "split_on (CHR ''.'') (str_ipv4 a) = split_on (CHR ''.'') (str_ipv4 b)"
    by (simp only: assms)
  then have s: "str_nat (a div 16777216 mod 256) = str_nat (b div 16777216 mod 256)"
      "str_nat (a div 65536 mod 256) = str_nat (b div 65536 mod 256)"
      "str_nat (a div 256 mod 256) = str_nat (b div 256 mod 256)"
      "str_nat (a mod 256) = str_nat (b mod 256)"
    by (simp_all only: split_on_str_ipv4 list.inject)
  from s(1) have "a div 16777216 mod 256 = b div 16777216 mod 256"
    by (rule str_nat_inj)
  then show "a div 256 div 256 div 256 mod 256 = b div 256 div 256 div 256 mod 256"
    by (simp only: div_16777216)
  from s(2) have "a div 65536 mod 256 = b div 65536 mod 256"
    by (rule str_nat_inj)
  then show "a div 256 div 256 mod 256 = b div 256 div 256 mod 256"
    by (simp only: div_65536)
  from s(3) show "a div 256 mod 256 = b div 256 mod 256"
    by (rule str_nat_inj)
  from s(4) show "a mod 256 = b mod 256"
    by (rule str_nat_inj)
qed

lemma str_ipv4_inj:
  assumes "a < 2 ^ 32" and "b < 2 ^ 32" and "str_ipv4 a = str_ipv4 b"
  shows "a = b"
proof -
  note o = octets_eq [OF assms(3)]
  have "a div 256 div 256 div 256 = b div 256 div 256 div 256"
    using o(1) top_octet [OF assms(1)] top_octet [OF assms(2)] by simp
  with o(2) have "a div 256 div 256 = b div 256 div 256"
    by (rule base256)
  with o(3) have "a div 256 = b div 256"
    by (rule base256)
  with o(4) show ?thesis
    by (rule base256)
qed

lemma or_below:
  fixes x y :: nat
  assumes "x < 2 ^ n" and "y < 2 ^ n"
  shows "x OR y < 2 ^ n"
proof -
  have "int x OR int y < 2 ^ n"
    using assms by (intro OR_upper) simp_all
  then have "int (x OR y) < int (2 ^ n)"
    by (simp add: of_nat_or_eq)
  then show ?thesis
    by (simp only: of_nat_less_iff)
qed

lemma broadcast_below:
  assumes "valid_network net"
  shows "broadcast_address net < 2 ^ max_prefixlen net"
proof -
  have "(2::nat) ^ (max_prefixlen net - prefixlen net) \<le> 2 ^ max_prefixlen net"
    by (rule power_increasing) simp_all
  moreover have "(0::nat) < 2 ^ (max_prefixlen net - prefixlen net)"
    by simp
  ultimately have "hostmask net < 2 ^ max_prefixlen net"
    unfolding hostmask_def by linarith
  moreover have "network_address net < 2 ^ max_prefixlen net"
    using assms by (simp add: valid_network_def)
  ultimately show ?thesis
    unfolding broadcast_address_def by (intro or_below)
qed

lemma hosts_family:
  "network_hosts net = map (address_class net) (map address_int (network_hosts net))"
  by (cases net) (simp_all add: network_hosts_def Let_def comp_def del: upt_Suc)

lemma sorted_wrt_less_distinct: "sorted_wrt (<) (xs :: nat list) \<Longrightarrow> distinct xs"
  by (simp add: strict_sorted_iff)

lemma hosts_strings_distinct_v4:
  assumes "valid_network (IPv4Network a p)"
  shows "distinct (map (str_address w) (network_hosts (IPv4Network a p)))"
proof -
  let ?net = "IPv4Network a p"
  let ?ints = "map address_int (network_hosts ?net)"
  have d: "distinct ?ints"
    using hosts_strictly_ascending by (rule sorted_wrt_less_distinct)
  have b: "x < 2 ^ 32" if "x \<in> set ?ints" for x
  proof -
    from that obtain h where "h \<in> set (network_hosts ?net)" "x = address_int h"
      by auto
    then have "x \<le> broadcast_address ?net"
      using hosts_inside [OF assms] by blast
    then show ?thesis
      using broadcast_below [OF assms] by simp
  qed
  have "inj_on str_ipv4 (set ?ints)"
    by (rule inj_onI) (blast intro: str_ipv4_inj b)
  then have s: "distinct (map str_ipv4 ?ints)"
    using d by (simp only: distinct_map)
  have "\<forall>h \<in> set (network_hosts ?net). str_address w h = str_ipv4 (address_int h)"
    by (subst hosts_family) simp
  then have e: "map (str_address w) (network_hosts ?net) = map str_ipv4 ?ints"
    by simp
  show ?thesis
    unfolding e by (rule s)
qed

lemma ping_sweep_cidr_calls:
  "ip_network w cidr = Inr net \<Longrightarrow> 0 < max_workers \<Longrightarrow>
     fst (ping_sweep_cidr w cidr t max_workers)
       = map (\<lambda>h. Submit_ping_host (str_address w h) t) (network_hosts net)"
  by (simp add: ping_sweep_cidr_def Let_def comp_def)

text \<open>
  C6, as the code has it. For every CIDR string that parses to a block (its network
  address has the host bits cleared, \<open>valid_network\<close>) and a positive worker count, the
  sweep submits one probe for each address of \<^verbatim>\<open>network.hosts()\<close>, in that order. These
  addresses are strictly ascending, hence unique, and inside the block. For an IPv4 block
  with a prefix of at most 30 bits they are all addresses of the block but the network and
  the broadcast address, \<open>2 ^ (32 - p) - 2\<close> of them; for an IPv6 block with a prefix of at
  most 126 bits all addresses but the first, \<open>2 ^ (128 - p) - 1\<close> of them. For a prefix one
  bit short of the address (/31, /127) they are both addresses of the block, the network
  and the broadcast address, and for a prefix of the whole address (/32, /128) the one
  address of the block: there nothing is excluded. The host strings of an IPv4 block are
  pairwise distinct.
\<close>

theorem ping_sweep_cidr_hosts:
  assumes "ip_network w cidr = Inr net" and "valid_network net" and "0 < max_workers"
  shows "fst (ping_sweep_cidr w cidr t max_workers)
           = map (\<lambda>h. Submit_ping_host (str_address w h) t) (network_hosts net)
       \<and> length (network_hosts net) =
           (if prefixlen net = max_prefixlen net then 1
            else if prefixlen net = max_prefixlen net - 1 then 2
            else (case net of
                    IPv4Network a p \<Rightarrow> 2 ^ (32 - p) - 2
                  | IPv6Network a p \<Rightarrow> 2 ^ (128 - p) - 1))
       \<and> sorted_wrt (<) (map address_int (network_hosts net))
       \<and> (\<forall>h \<in> set (network_hosts net).
             network_address net \<le> address_int h \<and> address_int h \<le> broadcast_address net)
       \<and> (prefixlen net + 2 \<le> max_prefixlen net \<longrightarrow>
             (\<forall>h \<in> set (network_hosts net). address_int h \<noteq> network_address net))
       \<and> (\<forall>a p. net = IPv4Network a p \<and> p + 2 \<le> 32 \<longrightarrow>
             (\<forall>h \<in> set (network_hosts net). address_int h \<noteq> broadcast_address net))
       \<and> (prefixlen net = max_prefixlen net - 1 \<longrightarrow>
             map address_int (network_hosts net) = [network_address net, broadcast_address net])
       \<and> (prefixlen net = max_prefixlen net \<longrightarrow>
             map address_int (network_hosts net) = [network_address net])
       \<and> (\<forall>a p. net = IPv4Network a p \<longrightarrow>
             distinct (map (str_address w) (network_hosts net)))"
proof -
  have c1: "fst (ping_sweep_cidr w cidr t max_workers)
           = map (\<lambda>h. Submit_ping_host (str_address w h) t) (network_hosts net)"
    using assms(1,3) by (rule ping_sweep_cidr_calls)
  note c2 = hosts_count [OF assms(2)]
  note c3 = hosts_strictly_ascending [of net]
  have c4: "\<forall>h \<in> set (network_hosts net).
             network_address net \<le> address_int h \<and> address_int h \<le> broadcast_address net"
    using hosts_inside [OF assms(2)] by blast
  have c5: "prefixlen net + 2 \<le> max_prefixlen net \<longrightarrow>
             (\<forall>h \<in> set (network_hosts net). address_int h \<noteq> network_address net)"
    using hosts_exclude_network [OF assms(2)] by blast
  have c6: "\<forall>a p. net = IPv4Network a p \<and> p + 2 \<le> 32 \<longrightarrow>
             (\<forall>h \<in> set (network_hosts net). address_int h \<noteq> broadcast_address net)"
    using hosts_exclude_broadcast_v4 by blast
  have c7: "prefixlen net = max_prefixlen net - 1 \<longrightarrow>
             map address_int (network_hosts net) = [network_address net, broadcast_address net]"
    using hosts_point_to_point [OF assms(2)] by simp
  have c8: "prefixlen net = max_prefixlen net \<longrightarrow>
             map address_int (network_hosts net) = [network_address net]"
    using hosts_single by blast
  have c9: "\<forall>a p. net = IPv4Network a p \<longrightarrow>
             distinct (map (str_address w) (network_hosts net))"
    using hosts_strings_distinct_v4 assms(2) by blast
  from c1 c2 c3 c4 c5 c6 c7 c8 c9 show ?thesis
    by (intro conjI)
qed

lemma str_ten:
  "str_ipv4 167772160 = ''10.0.0.0''" "str_ipv4 167772161 = ''10.0.0.1''"
  "str_ipv4 167772162 = ''10.0.0.2''"
  by (simp_all add: str_ipv4_def str_nat.simps digit_char_simps)

theorem ping_sweep_cidr_hosts_witness:
  "ip_network example_world ''10.0.0.0/30'' = Inr (IPv4Network 167772160 30)
   \<and> valid_network (IPv4Network 167772160 30) \<and> (0 :: int) < 64
   \<and> fst (ping_sweep_cidr example_world ''10.0.0.0/30'' 1 64)
       = [Submit_ping_host ''10.0.0.1'' 1, Submit_ping_host ''10.0.0.2'' 1]
   \<and> length (network_hosts (IPv4Network 167772160 30)) = 2
   \<and> distinct (map (str_address example_world) (network_hosts (IPv4Network 167772160 30)))"
proof -
  have i: "ip_network example_world ''10.0.0.0/30'' = Inr (IPv4Network 167772160 30)"
    by (simp add: example_world_def)
  have v: "valid_network (IPv4Network 167772160 30)"
    by (simp add: valid_network_def hostmask_def)
  have h: "(0 :: int) < 64" by simp
  have n: "network_hosts (IPv4Network 167772160 30)
             = [IPv4Address 167772161, IPv4Address 167772162]"
    by (simp add: network_hosts_def broadcast_address_def hostmask_def)
  have "fst (ping_sweep_cidr example_world ''10.0.0.0/30'' 1 64)
          = map (\<lambda>h. Submit_ping_host (str_address example_world h) 1)
              (network_hosts (IPv4Network 167772160 30))
        \<and> length (network_hosts (IPv4Network 167772160 30)) = 2
        \<and> distinct (map (str_address example_world) (network_hosts (IPv4Network 167772160 30)))"
    using ping_sweep_cidr_hosts [OF i v h, of 1] by simp
  then show ?thesis
    using i v by (simp add: n str_ten)
qed

text \<open>
  C6 as stated fails: for the block 10.0.0.0/31 the sweep probes 10.0.0.0 and 10.0.0.1,
  the network address and the broadcast address of the block.
\<close>

theorem ping_sweep_cidr_slash31_probes_network_address:
  "ip_network example_world ''10.0.0.0/31'' = Inr (IPv4Network 167772160 31)
   \<and> valid_network (IPv4Network 167772160 31)
   \<and> network_address (IPv4Network 167772160 31) = 167772160
   \<and> broadcast_address (IPv4Network 167772160 31) = 167772161
   \<and> network_hosts (IPv4Network 167772160 31) = [IPv4Address 167772160, IPv4Address 167772161]
   \<and> fst (ping_sweep_cidr example_world ''10.0.0.0/31'' 1 64)
       = [Submit_ping_host ''10.0.0.0'' 1, Submit_ping_host ''10.0.0.1'' 1]"
  by (simp add: ping_sweep_cidr_def example_world_def network_hosts_def broadcast_address_def
        hostmask_def valid_network_def str_ten)

end
